theory Spec2Isabelle
  imports Main
begin

section \<open>The concurrency limiter: class Semaphore\<close>

text \<open>
  The class has two fields: the counter \<open>permits\<close> (a JavaScript number, here an integer)
  and \<open>waitQueue\<close>, an array of closures. Each queued closure belongs to one call of
  \<open>acquire\<close>: when it is called it decrements \<open>permits\<close> and resolves the promise of
  that call. A closure is represented by the identity \<open>'w\<close> of the call that queued it.
\<close>

record 'w Semaphore =
  permits :: int
  waitQueue :: "'w list"

definition new_Semaphore :: "int \<Rightarrow> 'w Semaphore" where
  "new_Semaphore n = \<lparr>permits = n, waitQueue = []\<rparr>"

text \<open>
  \<open>acquire\<close> runs the promise executor synchronously. The first component of the result
  is the call whose promise was resolved in this step (\<open>Some w\<close>: the caller got a permit
  at once; \<open>None\<close>: the caller was pushed to the back of the queue).
\<close>

definition acquire :: "'w \<Rightarrow> 'w Semaphore \<Rightarrow> 'w option \<times> 'w Semaphore" where
  "acquire w s =
     (if permits s > 0 then (Some w, s\<lparr>permits := permits s - 1\<rparr>)
      else (None, s\<lparr>waitQueue := waitQueue s @ [w]\<rparr>))"

text \<open>
  \<open>release\<close> increments the counter and, when the queue is not empty, shifts its first
  closure and calls it within the same call; that closure decrements the counter again
  and resolves the promise of the waiter it belongs to.
\<close>

definition release :: "'w Semaphore \<Rightarrow> 'w option \<times> 'w Semaphore" where
  "release s =
     (let s1 = s\<lparr>permits := permits s + 1\<rparr> in
      if length (waitQueue s1) > 0 then
        (case waitQueue s1 of
           next # rest \<Rightarrow> (Some next, s1\<lparr>waitQueue := rest, permits := permits s1 - 1\<rparr>)
         | [] \<Rightarrow> (None, s1))
      else (None, s1))"

subsection \<open>Sequences of semaphore operations\<close>

datatype 'w sem_op = Acquire 'w | Release

text \<open>
  A trace state holds the promises resolved so far, in the order of their resolution, the
  number of calls of \<open>release\<close> so far, and the semaphore.
\<close>

record 'w sem_trace =
  granted :: "'w list"
  released :: nat
  sem :: "'w Semaphore"

definition sem_start :: "'w Semaphore \<Rightarrow> 'w sem_trace" where
  "sem_start s = \<lparr>granted = [], released = 0, sem = s\<rparr>"

definition note_grant :: "'w option \<Rightarrow> 'w list \<Rightarrow> 'w list" where
  "note_grant g gs = (case g of None \<Rightarrow> gs | Some w \<Rightarrow> gs @ [w])"

fun sem_step :: "'w sem_op \<Rightarrow> 'w sem_trace \<Rightarrow> 'w sem_trace" where
  "sem_step (Acquire w) t =
     (case acquire w (sem t) of
        (g, s') \<Rightarrow> t\<lparr>granted := note_grant g (granted t), sem := s'\<rparr>)"
| "sem_step Release t =
     (case release (sem t) of
        (g, s') \<Rightarrow> t\<lparr>granted := note_grant g (granted t), released := Suc (released t),
                     sem := s'\<rparr>)"

fun sem_run :: "'w sem_op list \<Rightarrow> 'w sem_trace \<Rightarrow> 'w sem_trace" where
  "sem_run [] t = t"
| "sem_run (x # xs) t = sem_run xs (sem_step x t)"

text \<open>Permits granted and not yet given back.\<close>

definition outstanding :: "'w sem_trace \<Rightarrow> int" where
  "outstanding t = int (length (granted t)) - int (released t)"

fun requests :: "'w sem_op list \<Rightarrow> 'w list" where
  "requests [] = []"
| "requests (Acquire w # xs) = w # requests xs"
| "requests (Release # xs) = requests xs"

fun releases :: "'w sem_op list \<Rightarrow> nat" where
  "releases [] = 0"
| "releases (Acquire w # xs) = releases xs"
| "releases (Release # xs) = Suc (releases xs)"

text \<open>
  While callers are queued no permit is free: a caller is only queued when the counter
  is not positive, and a release that finds a waiter hands the permit over.
\<close>

definition fifo_inv :: "'w sem_trace \<Rightarrow> bool" where
  "fifo_inv t = (waitQueue (sem t) \<noteq> [] \<longrightarrow> permits (sem t) \<le> 0)"

section \<open>The run registry\<close>

datatype status = Created | Running | Completed | Failed | Cancelled

record TaskRun =
  task :: string
  status :: status
  result :: string

text \<open>
  The run object \<open>{ [taskId: string]: TaskRun }\<close> is an association list in insertion
  order, the order in which \<open>Object.entries\<close> lists string keys. Task ids are the ids
  the runtime assigns and the generated \<open>error_...\<close> ids; they are taken not to be
  canonical array indices (which JavaScript would list first) nor names of properties
  of \<open>Object.prototype\<close>.
\<close>

type_synonym run_map = "(string \<times> TaskRun) list"

text \<open>\<open>run[id]\<close> as a condition: the key is present (an object is truthy).\<close>

definition has_entry :: "run_map \<Rightarrow> string \<Rightarrow> bool" where
  "has_entry r k = (map_of r k \<noteq> None)"

text \<open>\<open>run[id] = v\<close>: replaces the value of an existing key in place, appends a new key.\<close>

fun assign :: "string \<Rightarrow> TaskRun \<Rightarrow> run_map \<Rightarrow> run_map" where
  "assign k v [] = [(k, v)]"
| "assign k v ((k', v') # rest) =
     (if k' = k then (k, v) # rest else (k', v') # assign k v rest)"

text \<open>\<open>run[id].field = ...\<close> on an existing entry.\<close>

fun modify :: "string \<Rightarrow> (TaskRun \<Rightarrow> TaskRun) \<Rightarrow> run_map \<Rightarrow> run_map" where
  "modify k f [] = []"
| "modify k f ((k', v') # rest) =
     (if k' = k then (k', f v') # rest else (k', v') # modify k f rest)"

subsection \<open>summarizeRun\<close>

definition nl2 :: string where
  "nl2 = [CHR 0x0A, CHR 0x0A]"

definition statusText :: "status \<Rightarrow> string" where
  "statusText st =
     (case st of
        Created \<Rightarrow> ''(Created)''
      | Running \<Rightarrow> ''(Ongoing)''
      | Completed \<Rightarrow> []
      | Failed \<Rightarrow> ''(Failed)''
      | Cancelled \<Rightarrow> ''(Cancelled)'')"

text \<open>The loop over \<open>Object.entries(run)\<close>, with the string built so far.\<close>

fun summarizeEntries :: "run_map \<Rightarrow> string \<Rightarrow> string" where
  "summarizeEntries [] markdown = markdown"
| "summarizeEntries ((taskId, taskRun) # rest) markdown =
     summarizeEntries rest
       (markdown
        @ ''## '' @ task taskRun @ '' '' @ statusText (status taskRun) @ nl2
        @ result taskRun @ nl2
        @ (if status taskRun = Completed \<or> status taskRun = Failed
           then ''*Task ID: '' @ taskId @ ''*'' @ nl2 else [])
        @ ''---'' @ nl2)"

definition summarizeRun :: "run_map \<Rightarrow> string" where
  "summarizeRun r =
     (if length (map fst r) = 0
      then ''# RooCode Tasks'' @ nl2 @ ''*No tasks started yet...*'' @ nl2
      else summarizeEntries r (''# RooCode Tasks'' @ nl2))"

section \<open>executeTask: one task and its event handlers\<close>

text \<open>The promise returned by \<open>executeTask\<close>; a settled promise ignores later calls.\<close>

datatype promise = Pending | Resolved | Rejected string

definition resolve :: "promise \<Rightarrow> promise" where
  "resolve p = (case p of Pending \<Rightarrow> Resolved | _ \<Rightarrow> p)"

definition reject :: "string \<Rightarrow> promise \<Rightarrow> promise" where
  "reject e p = (case p of Pending \<Rightarrow> Rejected e | _ \<Rightarrow> p)"

text \<open>
  The variables one call of \<open>executeTask\<close> closes over: the query, the local
  \<open>taskId\<close>, the timer (\<open>timeoutMs\<close> is the delay given to \<open>setTimeout\<close>,
  \<open>timerArmed\<close> says that it has neither fired nor been cleared), the promise, and the
  number of terminal handlers suspended at \<open>await streamContent(...)\<close> with their call
  of \<open>resolve\<close> still ahead.
\<close>

record task_state =
  taskQuery :: string
  taskId :: string
  timeoutMs :: int
  timerArmed :: bool
  settled :: promise
  suspended :: nat

text \<open>
  A handler works on the run object, the texts \<open>streamContent\<close> has been called with
  so far, and the closure. The flag \<open>sc\<close> says whether a \<open>streamContent\<close> callback was
  given.
\<close>

type_synonym conf = "run_map \<times> string list \<times> task_state"

definition stream :: "bool \<Rightarrow> run_map \<Rightarrow> string list \<Rightarrow> string list" where
  "stream sc r out = (if sc then out @ [summarizeRun r] else out)"

text \<open>The synchronous part of \<open>executeTask\<close>: the timer is set, the promise is pending.\<close>

definition executeTask :: "string \<Rightarrow> int \<Rightarrow> task_state" where
  "executeTask q ms =
     \<lparr>taskQuery = q, taskId = [], timeoutMs = ms, timerArmed = True,
      settled = Pending, suspended = 0\<rparr>"

definition onTaskCreated :: "bool \<Rightarrow> string \<Rightarrow> conf \<Rightarrow> conf" where
  "onTaskCreated sc i c =
     (case c of (r, out, ts) \<Rightarrow>
        let ts' = ts\<lparr>taskId := i\<rparr>;
            r' = assign i \<lparr>task = taskQuery ts, status = Created,
                            result = ''Task created, waiting to start...''\<rparr> r
        in (r', stream sc r' out, ts'))"

definition onTaskStarted :: "bool \<Rightarrow> string \<Rightarrow> conf \<Rightarrow> conf" where
  "onTaskStarted sc i c =
     (case c of (r, out, ts) \<Rightarrow>
        if has_entry r i then
          let r' = modify i (\<lambda>e. e\<lparr>status := Running, result := ''Task started...''\<rparr>) r
          in (r', stream sc r' out, ts)
        else (r, out, ts))"

text \<open>
  \<open>message\<close> is the text \<open>JSON.stringify(message, null, 2)\<close> of the payload.
\<close>

definition onMessage :: "bool \<Rightarrow> string \<Rightarrow> string \<Rightarrow> conf \<Rightarrow> conf" where
  "onMessage sc i message c =
     (case c of (r, out, ts) \<Rightarrow>
        if has_entry r i then
          let r' = modify i (\<lambda>e. e\<lparr>result := message\<rparr>) r
          in (r', stream sc r' out, ts)
        else (r, out, ts))"

text \<open>
  The three terminal handlers clear the timer, write the entry when it exists, and call
  \<open>resolve\<close> last. With a callback and an entry, \<open>resolve\<close> comes after
  \<open>await streamContent(...)\<close>: the handler is suspended there and \<open>resolve\<close> is left
  to \<open>streamSettled\<close>.
\<close>

definition finish :: "bool \<Rightarrow> string \<Rightarrow> (TaskRun \<Rightarrow> TaskRun) \<Rightarrow> conf \<Rightarrow> conf" where
  "finish sc i f c =
     (case c of (r, out, ts) \<Rightarrow>
        let ts1 = ts\<lparr>timerArmed := False\<rparr> in
        if has_entry r i then
          let r' = modify i f r in
          if sc then (r', out @ [summarizeRun r'], ts1\<lparr>suspended := Suc (suspended ts1)\<rparr>)
          else (r', out, ts1\<lparr>settled := resolve (settled ts1)\<rparr>)
        else (r, out, ts1\<lparr>settled := resolve (settled ts1)\<rparr>))"

definition onTaskCompleted :: "bool \<Rightarrow> string \<Rightarrow> conf \<Rightarrow> conf" where
  "onTaskCompleted sc i c =
     finish sc i
       (\<lambda>e. let e1 = e\<lparr>status := Completed\<rparr> in
             if result e1 = [] \<or> result e1 = ''Task started...''
             then e1\<lparr>result := ''Task completed successfully''\<rparr> else e1) c"

definition onTaskAborted :: "bool \<Rightarrow> string \<Rightarrow> conf \<Rightarrow> conf" where
  "onTaskAborted sc i c =
     finish sc i (\<lambda>e. e\<lparr>status := Cancelled, result := ''Task was cancelled''\<rparr>) c"

definition onTaskToolFailed :: "bool \<Rightarrow> string \<Rightarrow> string \<Rightarrow> string \<Rightarrow> conf \<Rightarrow> conf" where
  "onTaskToolFailed sc i tool err c =
     finish sc i
       (\<lambda>e. e\<lparr>status := Failed, result := ''Tool '' @ tool @ '' failed: '' @ err\<rparr>) c"

text \<open>
  The awaited \<open>streamContent\<close> call of one suspended terminal handler settles: when it
  fulfilled (\<open>ok\<close>) the handler goes on to \<open>resolve()\<close>, when it rejected the handler
  ends there.
\<close>

definition streamSettled :: "bool \<Rightarrow> conf \<Rightarrow> conf" where
  "streamSettled ok c =
     (case c of (r, out, ts) \<Rightarrow>
        if suspended ts > 0 then
          (r, out, ts\<lparr>suspended := suspended ts - 1,
                      settled := (if ok then resolve (settled ts) else settled ts)\<rparr>)
        else (r, out, ts))"

text \<open>The callback of \<open>setTimeout\<close>; it runs only when the timer was not cleared.\<close>

definition onTimeout :: "bool \<Rightarrow> conf \<Rightarrow> conf" where
  "onTimeout sc c =
     (case c of (r, out, ts) \<Rightarrow>
        if timerArmed ts then
          let ts1 = ts\<lparr>timerArmed := False\<rparr> in
          if taskId ts1 \<noteq> [] \<and> has_entry r (taskId ts1) then
            let r' = modify (taskId ts1)
                       (\<lambda>e. e\<lparr>status := Failed,
                               result := ''Task timed out after 5 minutes''\<rparr>) r
            in (r', stream sc r' out, ts1\<lparr>settled := reject ''Task timeout'' (settled ts1)\<rparr>)
          else (r, out, ts1\<lparr>settled := reject ''Task timeout'' (settled ts1)\<rparr>)
        else (r, out, ts))"

text \<open>
  The \<open>catch\<close> handler of \<open>startNewTask\<close>. \<open>message\<close> is \<open>error.message\<close>;
  \<open>now\<close> is the decimal text of \<open>Date.now()\<close> and \<open>rnd\<close> the text
  \<open>Math.random().toString(36).substr(2, 9)\<close>, both given by the environment.
\<close>

definition onStartRejected :: "bool \<Rightarrow> string \<Rightarrow> string \<Rightarrow> string \<Rightarrow> conf \<Rightarrow> conf" where
  "onStartRejected sc message now rnd c =
     (case c of (r, out, ts) \<Rightarrow>
        let ts1 = ts\<lparr>timerArmed := False\<rparr>;
            tempTaskId = ''error_'' @ now @ ''_'' @ rnd;
            r' = assign tempTaskId
                   \<lparr>task = taskQuery ts1, status = Failed,
                    result = ''Failed to start task: '' @ message\<rparr> r
        in (r', stream sc r' out, ts1\<lparr>settled := reject message (settled ts1)\<rparr>))"

text \<open>
  The call \<open>this.rooAdapter.startNewTask(...)\<close> itself throws, inside the executor of
  \<open>new Promise\<close>: no promise is returned, so \<open>.catch\<close> is never attached and its
  handler never runs; the constructor rejects the promise with the exception. The
  timer, set before, is not cleared. \<open>message\<close> is the message of the exception.
\<close>

definition onStartThrew :: "string \<Rightarrow> conf \<Rightarrow> conf" where
  "onStartThrew message c =
     (case c of (r, out, ts) \<Rightarrow> (r, out, ts\<lparr>settled := reject message (settled ts)\<rparr>))"

datatype event =
    TaskCreated string
  | TaskStarted string
  | Message string string
  | TaskCompleted string
  | TaskAborted string
  | TaskToolFailed string string string
  | StreamSettled bool
  | TimeoutFired
  | StartRejected string string string
  | StartThrew string

fun handle :: "bool \<Rightarrow> event \<Rightarrow> conf \<Rightarrow> conf" where
  "handle sc (TaskCreated i) c = onTaskCreated sc i c"
| "handle sc (TaskStarted i) c = onTaskStarted sc i c"
| "handle sc (Message i message) c = onMessage sc i message c"
| "handle sc (TaskCompleted i) c = onTaskCompleted sc i c"
| "handle sc (TaskAborted i) c = onTaskAborted sc i c"
| "handle sc (TaskToolFailed i tool err) c = onTaskToolFailed sc i tool err c"
| "handle sc (StreamSettled ok) c = streamSettled ok c"
| "handle sc TimeoutFired c = onTimeout sc c"
| "handle sc (StartRejected message now rnd) c = onStartRejected sc message now rnd c"
| "handle sc (StartThrew message) c = onStartThrew message c"

fun handle_all :: "bool \<Rightarrow> event list \<Rightarrow> conf \<Rightarrow> conf" where
  "handle_all sc [] c = c"
| "handle_all sc (e # es) c = handle_all sc es (handle sc e c)"

text \<open>The status of an entry, \<open>None\<close> when the key is absent.\<close>

definition status_of :: "run_map \<Rightarrow> string \<Rightarrow> status option" where
  "status_of r k = map_option status (map_of r k)"

definition terminal :: "status \<Rightarrow> bool" where
  "terminal st = (st = Completed \<or> st = Failed \<or> st = Cancelled)"

section \<open>McpTaskManager\<close>

text \<open>
  The manager's flag and the \<open>isActive\<close> property of the adapter it reads in
  \<open>initialize\<close>.
\<close>

record manager =
  isInitialized :: bool
  adapterActive :: bool

datatype error = Error string

definition initialize :: "manager \<Rightarrow> error + manager" where
  "initialize m =
     (if isInitialized m then Inr m
      else if \<not> adapterActive m then Inl (Error ''RooCode adapter is not available'')
      else Inr (m\<lparr>isInitialized := True\<rparr>))"

definition dispose :: "manager \<Rightarrow> manager" where
  "dispose m = m\<lparr>isInitialized := False\<rparr>"

text \<open>
  The options: an absent field is \<open>None\<close>; of the callback only its presence is kept.
\<close>

record ExecuteRooTasksOptions =
  maxConcurrency :: "int option"
  streamContent :: bool
  timeout :: "int option"

text \<open>
  Each query has a slot: its call of \<open>acquire\<close> is still queued, or it holds (or held)
  a permit and \<open>executeTask\<close> has been entered.
\<close>

datatype slot = Queued string | Started task_state

record exec_state =
  run :: run_map
  streamed :: "string list"
  hasStream :: bool
  timeoutCfg :: int
  semaphore :: "nat Semaphore"
  slots :: "slot list"

text \<open>
  The loop over \<open>taskQueries\<close>: the \<open>k\<close>-th query calls \<open>acquire\<close>; when the promise
  is resolved its continuation enters \<open>executeTask\<close>.
\<close>

fun submit :: "nat \<Rightarrow> string list \<Rightarrow> exec_state \<Rightarrow> exec_state" where
  "submit k [] xs = xs"
| "submit k (q # qs) xs =
     submit (Suc k) qs
       (case acquire k (semaphore xs) of
          (None, s') \<Rightarrow> xs\<lparr>semaphore := s', slots := slots xs @ [Queued q]\<rparr>
        | (Some w, s') \<Rightarrow>
            xs\<lparr>semaphore := s',
               slots := slots xs @ [Started (executeTask q (timeoutCfg xs))]\<rparr>)"

text \<open>
  \<open>executeRooTasks\<close> up to the point where it waits for the tasks. \<open>first\<close> is the
  outcome of the awaited first call of \<open>streamContent\<close>: \<open>None\<close> when it fulfilled,
  the message of the rejection otherwise (not used when no callback was given).
\<close>

definition executeRooTasks ::
  "manager \<Rightarrow> string list \<Rightarrow> ExecuteRooTasksOptions \<Rightarrow> string option \<Rightarrow> error + exec_state" where
  "executeRooTasks m taskQueries options first =
     (if \<not> isInitialized m then Inl (Error ''McpTaskManager is not initialized'')
      else
        let mc = (case maxConcurrency options of None \<Rightarrow> 3 | Some n \<Rightarrow> n);
            ms = (case timeout options of None \<Rightarrow> 300000 | Some t \<Rightarrow> t);
            r = []
        in if streamContent options then
             (case first of
                Some e \<Rightarrow> Inl (Error e)
              | None \<Rightarrow>
                  Inr (submit 0 taskQueries
                         \<lparr>run = r, streamed = [summarizeRun r], hasStream = True,
                          timeoutCfg = ms, semaphore = new_Semaphore mc, slots = []\<rparr>))
           else
             Inr (submit 0 taskQueries
                    \<lparr>run = r, streamed = [], hasStream = False,
                     timeoutCfg = ms, semaphore = new_Semaphore mc, slots = []\<rparr>))"

text \<open>The continuation of a resolved \<open>acquire\<close>: the waiter's query enters \<open>executeTask\<close>.\<close>

definition start :: "nat \<Rightarrow> exec_state \<Rightarrow> exec_state" where
  "start j xs =
     (if j < length (slots xs) then
        (case slots xs ! j of
           Queued q \<Rightarrow> xs\<lparr>slots := (slots xs)[j := Started (executeTask q (timeoutCfg xs))]\<rparr>
         | Started ts \<Rightarrow> xs)
      else xs)"

text \<open>The \<open>finally\<close> block: \<open>release()\<close>, which may resolve the next waiter.\<close>

definition finally_release :: "exec_state \<Rightarrow> exec_state" where
  "finally_release xs =
     (case release (semaphore xs) of
        (None, s') \<Rightarrow> xs\<lparr>semaphore := s'\<rparr>
      | (Some j, s') \<Rightarrow> start j (xs\<lparr>semaphore := s'\<rparr>))"

text \<open>
  One event for the task of slot \<open>i\<close>. Handlers exist only once \<open>executeTask\<close> has been
  entered. When the promise of \<open>executeTask\<close> settles in this step, the \<open>finally\<close>
  block runs.
\<close>

definition deliver :: "nat \<Rightarrow> event \<Rightarrow> exec_state \<Rightarrow> exec_state" where
  "deliver i e xs =
     (if i < length (slots xs) then
        (case slots xs ! i of
           Queued q \<Rightarrow> xs
         | Started ts \<Rightarrow>
             (case handle (hasStream xs) e (run xs, streamed xs, ts) of
                (r', out', ts') \<Rightarrow>
                  let xs1 = xs\<lparr>run := r', streamed := out',
                               slots := (slots xs)[i := Started ts']\<rparr>
                  in if settled ts = Pending \<and> settled ts' \<noteq> Pending
                     then finally_release xs1 else xs1))
      else xs)"

fun deliver_all :: "(nat \<times> event) list \<Rightarrow> exec_state \<Rightarrow> exec_state" where
  "deliver_all [] xs = xs"
| "deliver_all ((i, e) # es) xs = deliver_all es (deliver i e xs)"



text \<open>The slots that hold a permit: \<open>executeTask\<close> entered and not yet settled.\<close>

fun holding :: "slot \<Rightarrow> bool" where
  "holding (Queued q) = False"
| "holding (Started ts) = (settled ts = Pending)"

definition admitted :: "exec_state \<Rightarrow> nat" where
  "admitted xs = length (filter holding (slots xs))"

text \<open>The slots whose call of \<open>acquire\<close> has not been resolved yet.\<close>

fun waiting :: "slot \<Rightarrow> bool" where
  "waiting (Queued q) = True"
| "waiting (Started ts) = False"

text \<open>The delay of every timer that has been set.\<close>

fun slot_timeouts :: "slot list \<Rightarrow> int list" where
  "slot_timeouts [] = []"
| "slot_timeouts (Queued q # ss) = slot_timeouts ss"
| "slot_timeouts (Started ts # ss) = timeoutMs ts # slot_timeouts ss"

section \<open>Properties of the semaphore\<close>

lemma sem_step_balance:
  "permits (sem (sem_step x t)) + outstanding (sem_step x t) = permits (sem t) + outstanding t"
  by (cases x)
     (auto simp: acquire_def release_def outstanding_def note_grant_def Let_def
           split: list.splits)

lemma sem_step_nonneg: "0 \<le> permits (sem t) \<Longrightarrow> 0 \<le> permits (sem (sem_step x t))"
  by (cases x) (auto simp: acquire_def release_def Let_def split: list.splits)

lemma sem_run_balance:
  "permits (sem (sem_run xs t)) + outstanding (sem_run xs t) = permits (sem t) + outstanding t"
  by (induction xs arbitrary: t) (simp_all add: sem_step_balance)

lemma sem_run_nonneg: "0 \<le> permits (sem t) \<Longrightarrow> 0 \<le> permits (sem (sem_run xs t))"
  by (induction xs arbitrary: t) (simp_all add: sem_step_nonneg)

lemma outstanding_bound:
  assumes "0 \<le> n"
  shows "outstanding (sem_run xs (sem_start (new_Semaphore n))) \<le> n"
proof -
  let ?t = "sem_start (new_Semaphore n) :: 'a sem_trace"
  have "permits (sem (sem_run xs ?t)) + outstanding (sem_run xs ?t) = n"
    using sem_run_balance [of xs ?t]
    by (simp add: sem_start_def new_Semaphore_def outstanding_def)
  moreover have "0 \<le> permits (sem (sem_run xs ?t))"
    using assms by (intro sem_run_nonneg) (simp add: sem_start_def new_Semaphore_def)
  ultimately show ?thesis by linarith
qed

lemma release_queued:
  "waitQueue s = w # ws \<Longrightarrow> release s = (Some w, s\<lparr>waitQueue := ws\<rparr>)"
  by (simp add: release_def Let_def)

lemma release_idle:
  "waitQueue s = [] \<Longrightarrow> release s = (None, s\<lparr>permits := permits s + 1\<rparr>)"
  by (simp add: release_def Let_def)

lemma step_acquire_free:
  "0 < permits (sem t) \<Longrightarrow>
   sem_step (Acquire w) t =
     t\<lparr>granted := granted t @ [w], sem := (sem t)\<lparr>permits := permits (sem t) - 1\<rparr>\<rparr>"
  by (simp add: acquire_def note_grant_def)

lemma step_acquire_busy:
  "permits (sem t) \<le> 0 \<Longrightarrow>
   sem_step (Acquire w) t = t\<lparr>sem := (sem t)\<lparr>waitQueue := waitQueue (sem t) @ [w]\<rparr>\<rparr>"
  by (simp add: acquire_def note_grant_def)

lemma step_release_queued:
  "waitQueue (sem t) = w # ws \<Longrightarrow>
   sem_step Release t =
     t\<lparr>granted := granted t @ [w], released := Suc (released t),
       sem := (sem t)\<lparr>waitQueue := ws\<rparr>\<rparr>"
  by (simp add: release_queued note_grant_def)

lemma acquire_only_run:
  "0 \<le> permits (sem t) \<Longrightarrow> (waitQueue (sem t) \<noteq> [] \<Longrightarrow> permits (sem t) = 0) \<Longrightarrow>
   sem_run (map Acquire ws) t =
     t\<lparr>granted := granted t @ take (nat (permits (sem t))) ws,
       sem := \<lparr>permits = permits (sem t) - int (min (nat (permits (sem t))) (length ws)),
               waitQueue = waitQueue (sem t) @ drop (nat (permits (sem t))) ws\<rparr>\<rparr>"
proof (induction ws arbitrary: t)
  case Nil
  then show ?case by simp
next
  case (Cons w ws)
  show ?case
  proof (cases "permits (sem t) > 0")
    case True
    then have k: "nat (permits (sem t)) = Suc (nat (permits (sem t) - 1))"
      by linarith
    from True Cons.prems have q: "waitQueue (sem t) = []" by auto
    define t' where "t' = sem_step (Acquire w) t"
    have t': "t' = t\<lparr>granted := granted t @ [w], sem := (sem t)\<lparr>permits := permits (sem t) - 1\<rparr>\<rparr>"
      unfolding t'_def using True by (rule step_acquire_free)
    have "sem_run (map Acquire ws) t' = t'\<lparr>granted := granted t' @ take (nat (permits (sem t'))) ws,
       sem := \<lparr>permits = permits (sem t') - int (min (nat (permits (sem t'))) (length ws)),
               waitQueue = waitQueue (sem t') @ drop (nat (permits (sem t'))) ws\<rparr>\<rparr>"
      by (rule Cons.IH) (use True q in \<open>simp_all add: t'\<close>)
    then have "sem_run (map Acquire ws) t' =
       t\<lparr>granted := granted t @ w # take (nat (permits (sem t) - 1)) ws,
         sem := \<lparr>permits = permits (sem t) - 1 - int (min (nat (permits (sem t) - 1)) (length ws)),
               waitQueue = drop (nat (permits (sem t) - 1)) ws\<rparr>\<rparr>"
      using q by (simp add: t')
    moreover have "sem_run (map Acquire (w # ws)) t = sem_run (map Acquire ws) t'"
      by (simp add: t'_def)
    ultimately show ?thesis
      using q by (simp only: k take_Suc_Cons drop_Suc_Cons length_Cons min_Suc_Suc) simp
  next
    case False
    with Cons.prems have p: "permits (sem t) = 0" by simp
    define t' where "t' = sem_step (Acquire w) t"
    have t': "t' = t\<lparr>sem := (sem t)\<lparr>waitQueue := waitQueue (sem t) @ [w]\<rparr>\<rparr>"
      unfolding t'_def using p by (intro step_acquire_busy) simp
    have "sem_run (map Acquire ws) t' = t'\<lparr>granted := granted t' @ take (nat (permits (sem t'))) ws,
       sem := \<lparr>permits = permits (sem t') - int (min (nat (permits (sem t'))) (length ws)),
               waitQueue = waitQueue (sem t') @ drop (nat (permits (sem t'))) ws\<rparr>\<rparr>"
      by (rule Cons.IH) (use p in \<open>simp_all add: t'\<close>)
    moreover have "sem_run (map Acquire (w # ws)) t = sem_run (map Acquire ws) t'"
      by (simp add: t'_def)
    ultimately show ?thesis using p by (simp add: t')
  qed
qed

lemma exhausted_run:
  "permits (sem t) \<le> 0 \<Longrightarrow> releases xs \<le> length (waitQueue (sem t)) \<Longrightarrow>
   granted (sem_run xs t) = granted t @ take (releases xs) (waitQueue (sem t))"
proof (induction xs arbitrary: t)
  case Nil
  then show ?case by simp
next
  case (Cons x xs)
  define t' where "t' = sem_step x t"
  have run: "sem_run (x # xs) t = sem_run xs t'"
    by (simp add: t'_def)
  show ?case
  proof (cases x)
    case (Acquire w)
    have t': "t' = t\<lparr>sem := (sem t)\<lparr>waitQueue := waitQueue (sem t) @ [w]\<rparr>\<rparr>"
      unfolding t'_def Acquire using Cons.prems(1) by (rule step_acquire_busy)
    have "granted (sem_run xs t') = granted t' @ take (releases xs) (waitQueue (sem t'))"
      by (rule Cons.IH) (use Cons.prems Acquire in \<open>simp_all add: t'\<close>)
    then have "granted (sem_run xs t') = granted t @ take (releases (x # xs)) (waitQueue (sem t))"
      using Cons.prems Acquire by (simp add: t')
    then show ?thesis by (simp only: run)
  next
    case Release
    with Cons.prems obtain w ws where q: "waitQueue (sem t) = w # ws"
      by (cases "waitQueue (sem t)") auto
    have t': "t' = t\<lparr>granted := granted t @ [w], released := Suc (released t),
                       sem := (sem t)\<lparr>waitQueue := ws\<rparr>\<rparr>"
      unfolding t'_def Release using q by (rule step_release_queued)
    have "granted (sem_run xs t') = granted t' @ take (releases xs) (waitQueue (sem t'))"
      by (rule Cons.IH) (use Cons.prems Release q in \<open>simp_all add: t'\<close>)
    then have "granted (sem_run xs t') = granted t @ take (releases (x # xs)) (waitQueue (sem t))"
      using Release q by (simp add: t')
    then show ?thesis by (simp only: run)
  qed
qed

lemma sem_step_order:
  "fifo_inv t \<Longrightarrow>
   fifo_inv (sem_step x t) \<and>
   granted (sem_step x t) @ waitQueue (sem (sem_step x t)) =
     granted t @ waitQueue (sem t) @ requests [x]"
  by (cases x)
     (auto simp: fifo_inv_def acquire_def release_def note_grant_def Let_def
           split: list.splits)

lemma requests_Cons: "requests (x # xs) = requests [x] @ requests xs"
  by (cases x) simp_all

lemma sem_run_order:
  "fifo_inv t \<Longrightarrow>
   granted (sem_run xs t) @ waitQueue (sem (sem_run xs t)) =
     granted t @ waitQueue (sem t) @ requests xs"
proof (induction xs arbitrary: t)
  case Nil
  then show ?case by simp
next
  case (Cons x xs)
  define t' where "t' = sem_step x t"
  have step: "fifo_inv t'" "granted t' @ waitQueue (sem t') = granted t @ waitQueue (sem t) @ requests [x]"
    unfolding t'_def using sem_step_order [OF Cons.prems, of x] by blast+
  have "granted (sem_run xs t') @ waitQueue (sem (sem_run xs t')) =
        granted t' @ waitQueue (sem t') @ requests xs"
    using step(1) by (rule Cons.IH)
  also have "\<dots> = (granted t @ waitQueue (sem t) @ requests [x]) @ requests xs"
    using step(2) by simp
  finally show ?case using requests_Cons [of x xs] by (simp add: t'_def)
qed

subsection \<open>The bound on outstanding permits\<close>

text \<open>
  Claim C2. For a semaphore constructed with a capacity \<open>n \<ge> 0\<close> and every sequence of
  \<open>acquire\<close> and \<open>release\<close> calls, the number of promises resolved by the semaphore
  minus the number of \<open>release\<close> calls never exceeds \<open>n\<close>. When more than \<open>n\<close>
  callers call \<open>acquire\<close> with no release in between, exactly the first \<open>n\<close> hold a
  permit, the others are queued in their order with caller number \<open>n + 1\<close> at the head,
  no permit is left, and the next \<open>release\<close> resolves that caller's promise.
\<close>

theorem semaphore_outstanding_bound:
  "0 \<le> n \<Longrightarrow>
   outstanding (sem_run xs (sem_start (new_Semaphore n))) \<le> n \<and>
   (nat n < length ws \<longrightarrow>
      granted (sem_run (map Acquire ws) (sem_start (new_Semaphore n))) = take (nat n) ws \<and>
      waitQueue (sem (sem_run (map Acquire ws) (sem_start (new_Semaphore n)))) = drop (nat n) ws \<and>
      permits (sem (sem_run (map Acquire ws) (sem_start (new_Semaphore n)))) = 0 \<and>
      fst (release (sem (sem_run (map Acquire ws) (sem_start (new_Semaphore n))))) =
        Some (ws ! nat n))"
proof (intro conjI impI)
  assume n: "0 \<le> n"
  show "outstanding (sem_run xs (sem_start (new_Semaphore n))) \<le> n"
    using n by (rule outstanding_bound)
  let ?t = "sem_run (map Acquire ws) (sem_start (new_Semaphore n))"
  have run: "?t = \<lparr>granted = take (nat n) ws, released = 0,
                    sem = \<lparr>permits = n - int (min (nat n) (length ws)),
                            waitQueue = drop (nat n) ws\<rparr>\<rparr>"
    using n acquire_only_run [of "sem_start (new_Semaphore n)" ws]
    by (simp add: sem_start_def new_Semaphore_def)
  assume more: "nat n < length ws"
  show "granted ?t = take (nat n) ws" by (simp add: run)
  show q: "waitQueue (sem ?t) = drop (nat n) ws" by (simp add: run)
  show "permits (sem ?t) = 0" using n more by (simp add: run)
  from more have "drop (nat n) ws = ws ! nat n # drop (Suc (nat n)) ws"
    by (simp add: Cons_nth_drop_Suc)
  with q have "waitQueue (sem ?t) = ws ! nat n # drop (Suc (nat n)) ws" by simp
  then show "fst (release (sem ?t)) = Some (ws ! nat n)"
    by (simp add: release_queued)
qed

text \<open>Capacity 1 and three callers: the first holds the permit, the second is served next.\<close>

theorem semaphore_outstanding_bound_witness:
  "(0::int) \<le> 1 \<and>
   outstanding (sem_run [Acquire (7::nat), Acquire 8, Release, Acquire 9]
                  (sem_start (new_Semaphore 1))) \<le> 1 \<and>
   nat 1 < length [7::nat, 8, 9] \<and>
   granted (sem_run (map Acquire [7::nat, 8, 9]) (sem_start (new_Semaphore 1))) = [7] \<and>
   waitQueue (sem (sem_run (map Acquire [7::nat, 8, 9]) (sem_start (new_Semaphore 1)))) = [8, 9] \<and>
   fst (release (sem (sem_run (map Acquire [7::nat, 8, 9]) (sem_start (new_Semaphore 1))))) =
     Some 8"
  using semaphore_outstanding_bound
          [of 1 "[Acquire (7::nat), Acquire 8, Release, Acquire 9]" "[7::nat, 8, 9]"]
  by simp

subsection \<open>First in, first out\<close>

text \<open>
  Claim C3. The semaphore serves callers in the order of their calls: at every moment
  the promises resolved so far, followed by the queue, are the callers of \<open>acquire\<close> in
  call order, so no caller is served before an earlier one. From a state with no free
  permit and \<open>k\<close> queued callers, the permits of the first \<open>m \<le> k\<close> releases go to the
  first \<open>m\<close> queued callers in queue order, whatever calls of \<open>acquire\<close> come in
  between. A \<open>release\<close> that finds a waiter resolves the promise of the head of the
  queue within the call and leaves the counter as it was.
\<close>

theorem semaphore_fifo:
  "granted (sem_run xs (sem_start (new_Semaphore n)))
     @ waitQueue (sem (sem_run xs (sem_start (new_Semaphore n)))) = requests xs \<and>
   (permits (sem t) \<le> 0 \<longrightarrow> releases ys \<le> length (waitQueue (sem t)) \<longrightarrow>
      granted (sem_run ys t) = granted t @ take (releases ys) (waitQueue (sem t))) \<and>
   (waitQueue s = w # rest \<longrightarrow> release s = (Some w, s\<lparr>waitQueue := rest\<rparr>))"
proof (intro conjI impI)
  have "fifo_inv (sem_start (new_Semaphore n) :: 'a sem_trace)"
    by (simp add: fifo_inv_def sem_start_def new_Semaphore_def)
  then show "granted (sem_run xs (sem_start (new_Semaphore n)))
     @ waitQueue (sem (sem_run xs (sem_start (new_Semaphore n)))) = requests xs"
    using sem_run_order [of "sem_start (new_Semaphore n)" xs]
    by (simp add: sem_start_def new_Semaphore_def)
next
  assume "permits (sem t) \<le> 0" "releases ys \<le> length (waitQueue (sem t))"
  then show "granted (sem_run ys t) = granted t @ take (releases ys) (waitQueue (sem t))"
    by (rule exhausted_run)
next
  assume "waitQueue s = w # rest"
  then show "release s = (Some w, s\<lparr>waitQueue := rest\<rparr>)"
    by (rule release_queued)
qed

text \<open>
  Capacity 1 and four callers, with a fourth call of \<open>acquire\<close> between two releases:
  the callers are served in the order 1, 2, 3.
\<close>

theorem semaphore_fifo_witness:
  "granted (sem_run [Acquire (1::nat), Acquire 2, Acquire 3, Release, Acquire 4, Release]
              (sem_start (new_Semaphore 1))) = [1, 2, 3] \<and>
   waitQueue (sem (sem_run [Acquire (1::nat), Acquire 2, Acquire 3, Release, Acquire 4, Release]
              (sem_start (new_Semaphore 1)))) = [4] \<and>
   granted (sem_run [Release, Acquire (4::nat), Release]
              \<lparr>granted = [1], released = 0, sem = \<lparr>permits = 0, waitQueue = [2, 3]\<rparr>\<rparr>)
     = [1, 2, 3] \<and>
   release \<lparr>permits = 0, waitQueue = [2::nat, 3]\<rparr> = (Some 2, \<lparr>permits = 0, waitQueue = [3]\<rparr>)"
  using semaphore_fifo
          [of "[Acquire (1::nat), Acquire 2, Acquire 3, Release, Acquire 4, Release]" 1
              "\<lparr>granted = [1::nat], released = 0, sem = \<lparr>permits = 0, waitQueue = [2, 3]\<rparr>\<rparr>"
              "[Release, Acquire (4::nat), Release]"
              "\<lparr>permits = 0, waitQueue = [2::nat, 3]\<rparr>" 2 "[3]"]
  by (simp add: acquire_def release_def note_grant_def sem_start_def new_Semaphore_def)


section \<open>Properties of the handlers\<close>

lemma map_of_assign: "map_of (assign k v r) = (map_of r)(k \<mapsto> v)"
  by (induction r) (auto simp: fun_eq_iff)

lemma map_of_modify:
  "map_of (modify k f r) k' = (if k' = k then map_option f (map_of r k) else map_of r k')"
  by (induction r) auto


lemma has_entry_modify: "has_entry (modify k f r) k' = has_entry r k'"
  by (simp add: has_entry_def map_of_modify)

lemma modify_absent: "\<not> has_entry r k \<Longrightarrow> modify k f r = r"
  by (induction r) (auto simp: has_entry_def split: if_splits)

lemma finish_run:
  "fst (finish sc i f (r, out, ts)) = modify i f r"
  by (simp add: finish_def Let_def modify_absent)

lemma finish_map_of:
  "map_of (fst (finish sc i f (r, out, ts))) k =
     (if k = i then map_option f (map_of r i) else map_of r k)"
  by (simp add: finish_run map_of_modify)

lemma onMessage_run:
  "fst (onMessage sc i message (r, out, ts)) = modify i (\<lambda>e. e\<lparr>result := message\<rparr>) r"
  by (simp add: onMessage_def Let_def modify_absent)

lemma onMessage_status:
  "status_of (fst (onMessage sc i message (r, out, ts))) k = status_of r k"
  by (cases "map_of r i") (simp_all add: onMessage_run status_of_def map_of_modify)

subsection \<open>Terminal events overwrite the status\<close>

text \<open>
  Claim C1, as the code has it. \<open>onMessage\<close> never changes the status of any entry.
  \<open>onTaskCompleted\<close>, \<open>onTaskAborted\<close> and \<open>onTaskToolFailed\<close> write their own
  status (completed, cancelled, failed) into the entry of their task whenever it exists,
  whatever its status was, and leave every other entry as it is. A tool failure
  followed by a completion of the same task therefore ends in status completed: the
  event applied last decides.
\<close>


theorem terminal_status_overwritten:
  "status_of (fst (onMessage sc i message (r, out, ts))) k = status_of r k \<and>
   (has_entry r i \<longrightarrow>
      status_of (fst (onTaskCompleted sc i (r, out, ts))) i = Some Completed \<and>
      status_of (fst (onTaskAborted sc i (r, out, ts))) i = Some Cancelled \<and>
      status_of (fst (onTaskToolFailed sc i tool err (r, out, ts))) i = Some Failed \<and>
      status_of (fst (onTaskCompleted sc i (onTaskToolFailed sc i tool err (r, out, ts)))) i
        = Some Completed) \<and>
   (k \<noteq> i \<longrightarrow>
      map_of (fst (onTaskCompleted sc i (r, out, ts))) k = map_of r k \<and>
      map_of (fst (onTaskAborted sc i (r, out, ts))) k = map_of r k \<and>
      map_of (fst (onTaskToolFailed sc i tool err (r, out, ts))) k = map_of r k)"
proof (intro conjI impI)
  show "status_of (fst (onMessage sc i message (r, out, ts))) k = status_of r k"
    by (rule onMessage_status)
next
  assume "has_entry r i"
  then obtain e where e: "map_of r i = Some e"
    by (auto simp: has_entry_def)
  show "status_of (fst (onTaskCompleted sc i (r, out, ts))) i = Some Completed"
    by (simp add: onTaskCompleted_def status_of_def finish_map_of e Let_def)
  show "status_of (fst (onTaskAborted sc i (r, out, ts))) i = Some Cancelled"
    by (simp add: onTaskAborted_def status_of_def finish_map_of e)
  show "status_of (fst (onTaskToolFailed sc i tool err (r, out, ts))) i = Some Failed"
    by (simp add: onTaskToolFailed_def status_of_def finish_map_of e)
  obtain r' out' ts' where c': "onTaskToolFailed sc i tool err (r, out, ts) = (r', out', ts')"
    by (cases "onTaskToolFailed sc i tool err (r, out, ts)") auto
  have "r' = fst (onTaskToolFailed sc i tool err (r, out, ts))"
    by (simp add: c')
  then have "has_entry r' i"
    using \<open>has_entry r i\<close> by (simp add: onTaskToolFailed_def finish_run has_entry_modify)
  then obtain e' where e': "map_of r' i = Some e'"
    by (auto simp: has_entry_def)
  show "status_of (fst (onTaskCompleted sc i (onTaskToolFailed sc i tool err (r, out, ts)))) i
        = Some Completed"
    unfolding c' by (simp add: onTaskCompleted_def status_of_def finish_map_of e' Let_def)
next
  assume "k \<noteq> i"
  then show "map_of (fst (onTaskCompleted sc i (r, out, ts))) k = map_of r k"
    and "map_of (fst (onTaskAborted sc i (r, out, ts))) k = map_of r k"
    and "map_of (fst (onTaskToolFailed sc i tool err (r, out, ts))) k = map_of r k"
    by (simp_all add: onTaskCompleted_def onTaskAborted_def onTaskToolFailed_def finish_map_of)
qed

text \<open>An entry that is already failed, and a completion for it.\<close>

theorem terminal_status_overwritten_witness:
  "has_entry [(''t1'', \<lparr>task = ''q'', status = Failed, result = ''Tool read_file failed: denied''\<rparr>)] ''t1'' \<and>
   ''t2'' \<noteq> ''t1'' \<and>
   status_of (fst (onTaskCompleted False ''t1''
      ([(''t1'', \<lparr>task = ''q'', status = Failed, result = ''Tool read_file failed: denied''\<rparr>)],
       [], executeTask ''q'' 300000))) ''t1'' = Some Completed \<and>
   map_of (fst (onTaskCompleted False ''t1''
      ([(''t1'', \<lparr>task = ''q'', status = Failed, result = ''Tool read_file failed: denied''\<rparr>)],
       [], executeTask ''q'' 300000))) ''t2'' = None"
  using terminal_status_overwritten
    [of False "''t1''" "''m''"
        "[(''t1'', \<lparr>task = ''q'', status = Failed, result = ''Tool read_file failed: denied''\<rparr>)]"
        "[]" "executeTask ''q'' 300000" "''t2''" "''read_file''" "''denied''"]
  by (simp add: has_entry_def)

text \<open>
  One task without a callback: created, started, a tool fails, and then the task
  completes. The status failed is replaced by completed.
\<close>

theorem terminal_status_counterexample:
  "handle_all False [TaskCreated ''t1'', TaskStarted ''t1'', TaskToolFailed ''t1'' ''read_file'' ''denied'']
     ([], [], executeTask ''q'' 300000) =
     ([(''t1'', \<lparr>task = ''q'', status = Failed, result = ''Tool read_file failed: denied''\<rparr>)], [],
      \<lparr>taskQuery = ''q'', taskId = ''t1'', timeoutMs = 300000, timerArmed = False,
       settled = Resolved, suspended = 0\<rparr>) \<and>
   handle_all False [TaskCreated ''t1'', TaskStarted ''t1'', TaskToolFailed ''t1'' ''read_file'' ''denied'',
                     TaskCompleted ''t1'']
     ([], [], executeTask ''q'' 300000) =
     ([(''t1'', \<lparr>task = ''q'', status = Completed, result = ''Tool read_file failed: denied''\<rparr>)], [],
      \<lparr>taskQuery = ''q'', taskId = ''t1'', timeoutMs = 300000, timerArmed = False,
       settled = Resolved, suspended = 0\<rparr>)"
  by (simp add: onTaskCreated_def onTaskStarted_def onTaskToolFailed_def onTaskCompleted_def
        finish_def executeTask_def has_entry_def stream_def resolve_def Let_def)

section \<open>Properties of executeRooTasks and its tasks\<close>

lemma run_submit: "run (submit k qs xs) = run xs"
  by (induction qs arbitrary: k xs) (auto simp: acquire_def split: prod.splits option.splits)

lemma streamed_submit: "streamed (submit k qs xs) = streamed xs"
  by (induction qs arbitrary: k xs) (auto simp: acquire_def split: prod.splits option.splits)

lemma hasStream_submit: "hasStream (submit k qs xs) = hasStream xs"
  by (induction qs arbitrary: k xs) (auto simp: acquire_def split: prod.splits option.splits)

lemma status_UNIV: "(UNIV :: status set) = {Created, Running, Completed, Failed, Cancelled}"
proof -
  have "x \<in> {Created, Running, Completed, Failed, Cancelled}" for x :: status
    by (cases x) simp_all
  then show ?thesis by blast
qed

lemma handle_stream:
  "handle True e (r, out, ts) = (r', out', ts') \<Longrightarrow>
   (r' = r \<and> out' = out) \<or> out' = out @ [summarizeRun r']"
  by (cases e)
     (auto simp: onTaskCreated_def onTaskStarted_def onMessage_def onTaskCompleted_def
        onTaskAborted_def onTaskToolFailed_def finish_def streamSettled_def onTimeout_def
        onStartRejected_def onStartThrew_def stream_def Let_def split: if_splits)

lemma start_fields:
  "run (start j xs) = run xs" "streamed (start j xs) = streamed xs"
  "hasStream (start j xs) = hasStream xs" "timeoutCfg (start j xs) = timeoutCfg xs"
  "semaphore (start j xs) = semaphore xs" "length (slots (start j xs)) = length (slots xs)"
  by (simp_all add: start_def split: slot.splits)

lemma finally_release_fields:
  "run (finally_release xs) = run xs" "streamed (finally_release xs) = streamed xs"
  "hasStream (finally_release xs) = hasStream xs"
  "timeoutCfg (finally_release xs) = timeoutCfg xs"
  "semaphore (finally_release xs) = snd (release (semaphore xs))"
  "length (slots (finally_release xs)) = length (slots xs)"
  by (simp_all add: finally_release_def start_fields split: prod.splits option.splits)

lemma deliver_cases:
  obtains (idle) "deliver i e xs = xs"
  | (handled) ts r' out' ts' where
      "i < length (slots xs)" "slots xs ! i = Started ts"
      "handle (hasStream xs) e (run xs, streamed xs, ts) = (r', out', ts')"
      "\<not> (settled ts = Pending \<and> settled ts' \<noteq> Pending)"
      "deliver i e xs = xs\<lparr>run := r', streamed := out', slots := (slots xs)[i := Started ts']\<rparr>"
  | (settling) ts r' out' ts' where
      "i < length (slots xs)" "slots xs ! i = Started ts"
      "handle (hasStream xs) e (run xs, streamed xs, ts) = (r', out', ts')"
      "settled ts = Pending" "settled ts' \<noteq> Pending"
      "deliver i e xs =
         finally_release (xs\<lparr>run := r', streamed := out', slots := (slots xs)[i := Started ts']\<rparr>)"
proof (cases "i < length (slots xs)")
  case False
  then have "deliver i e xs = xs" by (simp add: deliver_def)
  then show ?thesis by (rule idle)
next
  case True
  show ?thesis
  proof (cases "slots xs ! i")
    case (Queued q)
    with True have "deliver i e xs = xs" by (simp add: deliver_def)
    then show ?thesis by (rule idle)
  next
    case (Started ts)
    obtain r' out' ts' where h: "handle (hasStream xs) e (run xs, streamed xs, ts) = (r', out', ts')"
      by (cases "handle (hasStream xs) e (run xs, streamed xs, ts)") auto
    show ?thesis
    proof (cases "settled ts = Pending \<and> settled ts' \<noteq> Pending")
      case True
      with \<open>i < length (slots xs)\<close> Started h show ?thesis
        by (intro settling [of ts r' out' ts']) (simp_all add: deliver_def Let_def)
    next
      case False
      with \<open>i < length (slots xs)\<close> Started h show ?thesis
        by (intro handled [of ts r' out' ts']) (auto simp: deliver_def Let_def)
    qed
  qed
qed

lemma deliver_hasStream: "hasStream (deliver i e xs) = hasStream xs"
  by (cases i e xs rule: deliver_cases) (simp_all add: finally_release_fields)

lemma deliver_timeoutCfg: "timeoutCfg (deliver i e xs) = timeoutCfg xs"
  by (cases i e xs rule: deliver_cases) (simp_all add: finally_release_fields)

lemma deliver_synced:
  assumes "hasStream xs" "streamed xs \<noteq> []" "last (streamed xs) = summarizeRun (run xs)"
  shows "streamed (deliver i e xs) \<noteq> [] \<and>
         last (streamed (deliver i e xs)) = summarizeRun (run (deliver i e xs))"
proof (cases i e xs rule: deliver_cases)
  case idle
  with assms show ?thesis by simp
next
  case (handled ts r' out' ts')
  from handled(3) assms(1) have "(r' = run xs \<and> out' = streamed xs) \<or> out' = streamed xs @ [summarizeRun r']"
    using handle_stream by simp
  with assms handled(5) show ?thesis by auto
next
  case (settling ts r' out' ts')
  from settling(3) assms(1) have "(r' = run xs \<and> out' = streamed xs) \<or> out' = streamed xs @ [summarizeRun r']"
    using handle_stream by simp
  with assms settling(6) show ?thesis by (auto simp: finally_release_fields)
qed

lemma deliver_all_synced:
  "hasStream xs \<Longrightarrow> streamed xs \<noteq> [] \<Longrightarrow> last (streamed xs) = summarizeRun (run xs) \<Longrightarrow>
   streamed (deliver_all es xs) \<noteq> [] \<and>
   last (streamed (deliver_all es xs)) = summarizeRun (run (deliver_all es xs))"
proof (induction es arbitrary: xs)
  case Nil
  then show ?case by simp
next
  case (Cons a es)
  obtain i e where a: "a = (i, e)" by (cases a)
  have "streamed (deliver_all es (deliver i e xs)) \<noteq> [] \<and>
        last (streamed (deliver_all es (deliver i e xs))) =
          summarizeRun (run (deliver_all es (deliver i e xs)))"
    using Cons.prems deliver_synced [of xs i e]
    by (intro Cons.IH) (simp_all add: deliver_hasStream)
  then show ?case by (simp add: a)
qed

subsection \<open>Permits, timers and entries along the events\<close>

lemma holding_update:
  "i < length ss \<Longrightarrow>
   length (filter holding (ss[i := s])) + (if holding (ss ! i) then 1 else 0) =
   length (filter holding ss) + (if holding s then 1 else 0)"
proof (induction ss arbitrary: i)
  case Nil
  then show ?case by simp
next
  case (Cons a ss)
  show ?case
  proof (cases i)
    case 0
    then show ?thesis by simp
  next
    case (Suc k)
    with Cons.prems have "k < length ss" by simp
    from Cons.IH [OF this] Suc show ?thesis by simp
  qed
qed

lemma slots_start_kept:
  "slots xs ! i = Started t \<Longrightarrow> slots (start j xs) ! i = Started t"
  by (cases "i = j") (auto simp: start_def split: slot.splits)

lemma slots_finally_release_kept:
  "slots xs ! i = Started t \<Longrightarrow> slots (finally_release xs) ! i = Started t"
  by (auto simp: finally_release_def slots_start_kept split: prod.splits option.splits)

lemma admitted_start: "admitted (start j xs) \<le> Suc (admitted xs)"
proof (cases "j < length (slots xs)")
  case False
  then show ?thesis by (simp add: start_def)
next
  case True
  show ?thesis
  proof (cases "slots xs ! j")
    case (Started ts)
    with True show ?thesis by (simp add: start_def)
  next
    case (Queued q)
    with True holding_update [of j "slots xs" "Started (executeTask q (timeoutCfg xs))"]
    show ?thesis by (simp add: start_def admitted_def executeTask_def)
  qed
qed

lemma finally_release_permits:
  assumes "0 \<le> permits (semaphore xs)"
  shows "0 \<le> permits (semaphore (finally_release xs))"
    and "int (admitted (finally_release xs)) + permits (semaphore (finally_release xs))
           \<le> int (admitted xs) + permits (semaphore xs) + 1"
proof -
  show "0 \<le> permits (semaphore (finally_release xs))"
    using assms by (cases "waitQueue (semaphore xs)") (simp_all add: finally_release_fields release_def Let_def)
  show "int (admitted (finally_release xs)) + permits (semaphore (finally_release xs))
           \<le> int (admitted xs) + permits (semaphore xs) + 1"
  proof (cases "waitQueue (semaphore xs)")
    case Nil
    then show ?thesis
      by (simp add: finally_release_def release_idle admitted_def)
  next
    case (Cons j rest)
    have "admitted (start j (xs\<lparr>semaphore := (semaphore xs)\<lparr>waitQueue := rest\<rparr>\<rparr>))
            \<le> Suc (admitted (xs\<lparr>semaphore := (semaphore xs)\<lparr>waitQueue := rest\<rparr>\<rparr>))"
      by (rule admitted_start)
    then show ?thesis
      using Cons by (simp add: finally_release_def release_queued start_fields admitted_def)
  qed
qed

lemma handle_settled_kept:
  "handle sc e (r, out, ts) = (r', out', ts') \<Longrightarrow> settled ts \<noteq> Pending \<Longrightarrow> settled ts' \<noteq> Pending"
  by (cases e)
     (auto simp: onTaskCreated_def onTaskStarted_def onMessage_def onTaskCompleted_def
        onTaskAborted_def onTaskToolFailed_def finish_def streamSettled_def onTimeout_def
        onStartRejected_def onStartThrew_def resolve_def reject_def Let_def split: if_splits promise.splits)

lemma handle_timeoutMs:
  "handle sc e (r, out, ts) = (r', out', ts') \<Longrightarrow> timeoutMs ts' = timeoutMs ts"
  by (cases e)
     (auto simp: onTaskCreated_def onTaskStarted_def onMessage_def onTaskCompleted_def
        onTaskAborted_def onTaskToolFailed_def finish_def streamSettled_def onTimeout_def
        onStartRejected_def onStartThrew_def Let_def split: if_splits)

lemma deliver_permits:
  assumes "0 \<le> permits (semaphore xs)"
  shows "0 \<le> permits (semaphore (deliver i e xs)) \<and>
         int (admitted (deliver i e xs)) + permits (semaphore (deliver i e xs))
           \<le> int (admitted xs) + permits (semaphore xs)"
proof (cases i e xs rule: deliver_cases)
  case idle
  with assms show ?thesis by simp
next
  case (handled ts r' out' ts')
  have "holding (Started ts') = holding (Started ts)"
    using handled(4) handle_settled_kept [OF handled(3)] by auto
  with holding_update [OF handled(1), of "Started ts'"] handled(2)
  have "admitted (deliver i e xs) = admitted xs"
    by (simp add: handled(5) admitted_def)
  with assms show ?thesis by (simp add: handled(5))
next
  case (settling ts r' out' ts')
  define xs1 where "xs1 = xs\<lparr>run := r', streamed := out', slots := (slots xs)[i := Started ts']\<rparr>"
  have "Suc (admitted xs1) = admitted xs"
    using holding_update [OF settling(1), of "Started ts'"] settling(2,4,5)
    by (simp add: xs1_def admitted_def)
  moreover have "permits (semaphore xs1) = permits (semaphore xs)"
    by (simp add: xs1_def)
  moreover have "0 \<le> permits (semaphore xs1)"
    using assms by (simp add: xs1_def)
  then have "0 \<le> permits (semaphore (finally_release xs1))"
    and "int (admitted (finally_release xs1)) + permits (semaphore (finally_release xs1))
           \<le> int (admitted xs1) + permits (semaphore xs1) + 1"
    by (rule finally_release_permits)+
  ultimately show ?thesis
    unfolding settling(6) xs1_def [symmetric] by linarith
qed

lemma deliver_all_permits:
  "0 \<le> permits (semaphore xs) \<Longrightarrow>
   0 \<le> permits (semaphore (deliver_all es xs)) \<and>
   int (admitted (deliver_all es xs)) + permits (semaphore (deliver_all es xs))
     \<le> int (admitted xs) + permits (semaphore xs)"
proof (induction es arbitrary: xs)
  case Nil
  then show ?case by simp
next
  case (Cons a es)
  obtain i e where a: "a = (i, e)" by (cases a)
  from deliver_permits [OF Cons.prems, of i e]
  have st: "0 \<le> permits (semaphore (deliver i e xs))"
    "int (admitted (deliver i e xs)) + permits (semaphore (deliver i e xs))
           \<le> int (admitted xs) + permits (semaphore xs)"
    by simp_all
  from Cons.IH [OF st(1)] st(2) show ?case by (simp add: a)
qed

lemma submit_permits:
  "0 \<le> permits (semaphore xs) \<Longrightarrow>
   0 \<le> permits (semaphore (submit k qs xs)) \<and>
   int (admitted (submit k qs xs)) + permits (semaphore (submit k qs xs))
     = int (admitted xs) + permits (semaphore xs)"
proof (induction qs arbitrary: k xs)
  case Nil
  then show ?case by simp
next
  case (Cons q qs)
  define xs1 where "xs1 =
     (case acquire k (semaphore xs) of
          (None, s') \<Rightarrow> xs\<lparr>semaphore := s', slots := slots xs @ [Queued q]\<rparr>
        | (Some w, s') \<Rightarrow>
            xs\<lparr>semaphore := s',
               slots := slots xs @ [Started (executeTask q (timeoutCfg xs))]\<rparr>)"
  have st: "0 \<le> permits (semaphore xs1)"
    "int (admitted xs1) + permits (semaphore xs1) = int (admitted xs) + permits (semaphore xs)"
    using Cons.prems
    by (auto simp: xs1_def acquire_def admitted_def executeTask_def)
  from Cons.IH [OF st(1), of "Suc k"] st(2) show ?case
    by (simp add: xs1_def)
qed

lemma timeouts_mem:
  "ms \<in> set (slot_timeouts ss) \<longleftrightarrow> (\<exists>ts. Started ts \<in> set ss \<and> timeoutMs ts = ms)"
  by (induction ss rule: slot_timeouts.induct) auto

lemma start_timeouts:
  assumes "\<forall>ts. Started ts \<in> set (slots xs) \<longrightarrow> timeoutMs ts = timeoutCfg xs"
  shows "\<forall>ts. Started ts \<in> set (slots (start j xs)) \<longrightarrow> timeoutMs ts = timeoutCfg xs"
proof (intro allI impI)
  fix ts assume "Started ts \<in> set (slots (start j xs))"
  then consider "Started ts \<in> set (slots xs)"
    | q where "ts = executeTask q (timeoutCfg xs)"
    using set_update_subset_insert [of "slots xs" j]
    by (fastforce simp: start_def split: if_splits slot.splits)
  then show "timeoutMs ts = timeoutCfg xs"
    using assms by cases (simp_all add: executeTask_def)
qed

lemma finally_release_timeouts:
  assumes "\<forall>ts. Started ts \<in> set (slots xs) \<longrightarrow> timeoutMs ts = timeoutCfg xs"
  shows "\<forall>ts. Started ts \<in> set (slots (finally_release xs)) \<longrightarrow> timeoutMs ts = timeoutCfg xs"
proof (cases "release (semaphore xs)")
  case (Pair g s')
  show ?thesis
  proof (cases g)
    case None
    with Pair assms show ?thesis by (simp add: finally_release_def)
  next
    case (Some j)
    from assms have "\<forall>ts. Started ts \<in> set (slots (xs\<lparr>semaphore := s'\<rparr>)) \<longrightarrow>
                       timeoutMs ts = timeoutCfg (xs\<lparr>semaphore := s'\<rparr>)"
      by simp
    from start_timeouts [OF this, of j] Pair Some show ?thesis
      by (simp add: finally_release_def)
  qed
qed

lemma update_timeouts:
  assumes "\<forall>ts. Started ts \<in> set ss \<longrightarrow> timeoutMs ts = c" "timeoutMs ts' = c"
  shows "\<forall>ts. Started ts \<in> set (ss[i := Started ts']) \<longrightarrow> timeoutMs ts = c"
  using assms set_update_subset_insert [of ss i "Started ts'"] by auto

lemma deliver_timeouts:
  assumes "\<forall>ts. Started ts \<in> set (slots xs) \<longrightarrow> timeoutMs ts = timeoutCfg xs"
  shows "\<forall>ts. Started ts \<in> set (slots (deliver i e xs)) \<longrightarrow> timeoutMs ts = timeoutCfg xs"
proof (cases i e xs rule: deliver_cases)
  case idle
  with assms show ?thesis by simp
next
  case (handled ts r' out' ts')
  have "Started ts \<in> set (slots xs)"
    using handled(1,2) by (metis nth_mem)
  with assms handle_timeoutMs [OF handled(3)] have "timeoutMs ts' = timeoutCfg xs" by simp
  from update_timeouts [OF assms this, of i] show ?thesis by (simp add: handled(5))
next
  case (settling ts r' out' ts')
  define xs1 where "xs1 = xs\<lparr>run := r', streamed := out', slots := (slots xs)[i := Started ts']\<rparr>"
  have "Started ts \<in> set (slots xs)"
    using settling(1,2) by (metis nth_mem)
  with assms handle_timeoutMs [OF settling(3)] have "timeoutMs ts' = timeoutCfg xs" by simp
  from update_timeouts [OF assms this, of i]
  have "\<forall>ts. Started ts \<in> set (slots xs1) \<longrightarrow> timeoutMs ts = timeoutCfg xs1"
    by (simp add: xs1_def)
  from finally_release_timeouts [OF this] show ?thesis
    unfolding settling(6) xs1_def [symmetric] by (simp add: xs1_def)
qed

lemma deliver_all_timeouts:
  "\<forall>ts. Started ts \<in> set (slots xs) \<longrightarrow> timeoutMs ts = timeoutCfg xs \<Longrightarrow>
   \<forall>ts. Started ts \<in> set (slots (deliver_all es xs)) \<longrightarrow> timeoutMs ts = timeoutCfg xs"
proof (induction es arbitrary: xs)
  case Nil
  then show ?case by simp
next
  case (Cons a es)
  obtain i e where a: "a = (i, e)" by (cases a)
  have "\<forall>ts. Started ts \<in> set (slots (deliver i e xs)) \<longrightarrow>
          timeoutMs ts = timeoutCfg (deliver i e xs)"
    using deliver_timeouts [OF Cons.prems, of i e] by (simp add: deliver_timeoutCfg)
  from Cons.IH [OF this] show ?case by (simp add: a deliver_timeoutCfg)
qed

lemma submit_timeouts:
  "\<forall>ts. Started ts \<in> set (slots xs) \<longrightarrow> timeoutMs ts = timeoutCfg xs \<Longrightarrow>
   timeoutCfg (submit k qs xs) = timeoutCfg xs \<and>
   (\<forall>ts. Started ts \<in> set (slots (submit k qs xs)) \<longrightarrow> timeoutMs ts = timeoutCfg xs)"
proof (induction qs arbitrary: k xs)
  case Nil
  then show ?case by simp
next
  case (Cons q qs)
  define xs1 where "xs1 =
     (case acquire k (semaphore xs) of
          (None, s') \<Rightarrow> xs\<lparr>semaphore := s', slots := slots xs @ [Queued q]\<rparr>
        | (Some w, s') \<Rightarrow>
            xs\<lparr>semaphore := s',
               slots := slots xs @ [Started (executeTask q (timeoutCfg xs))]\<rparr>)"
  have st: "timeoutCfg xs1 = timeoutCfg xs"
    "\<forall>ts. Started ts \<in> set (slots xs1) \<longrightarrow> timeoutMs ts = timeoutCfg xs1"
    using Cons.prems
    by (auto simp: xs1_def acquire_def executeTask_def)
  from Cons.IH [OF st(2), of "Suc k"] st(1) show ?case
    by (simp add: xs1_def)
qed










lemma deliver_run_idle:
  "\<not> i < length (slots xs) \<or> slots xs ! i = Queued q \<Longrightarrow> run (deliver i e xs) = run xs"
  by (auto simp: deliver_def)




subsection \<open>The text of the summary\<close>

lemma summarizeEntries_acc: "summarizeEntries r acc = acc @ summarizeEntries r []"
proof (induction r arbitrary: acc)
  case Nil
  then show ?case by simp
next
  case (Cons a r)
  obtain k e where a: "a = (k, e)" by (cases a)
  show ?case
    unfolding a summarizeEntries.simps
    by (subst Cons.IH) (subst (2) Cons.IH, simp)
qed

lemma summarizeEntries_Cons:
  "summarizeEntries ((k, e) # r) [] =
     ''## '' @ task e @ '' '' @ statusText (status e) @ nl2 @ result e @ nl2
     @ (if status e = Completed \<or> status e = Failed then ''*Task ID: '' @ k @ ''*'' @ nl2 else [])
     @ ''---'' @ nl2 @ summarizeEntries r []"
  by (subst summarizeEntries.simps, subst summarizeEntries_acc) simp

lemma statusText_marks:
  "statusText s1 @ nl2 @ x = statusText s2 @ nl2 @ y \<Longrightarrow> s1 = s2"
  by (cases s1; cases s2) (simp_all add: statusText_def nl2_def)

lemma summarizeRun_unfold:
  "summarizeRun r =
     (if r = [] then ''# RooCode Tasks'' @ nl2 @ ''*No tasks started yet...*'' @ nl2
      else ''# RooCode Tasks'' @ nl2 @ summarizeEntries r [])"
  using summarizeEntries_acc [of r "''# RooCode Tasks'' @ nl2"]
  by (simp add: summarizeRun_def)

lemma summarizeEntries_inj:
  "map (\<lambda>(k, e). (k, task e, result e)) r1 = map (\<lambda>(k, e). (k, task e, result e)) r2 \<Longrightarrow>
   summarizeEntries r1 [] = summarizeEntries r2 [] \<Longrightarrow> r1 = r2"
proof (induction r1 arbitrary: r2)
  case Nil
  then show ?case by simp
next
  case (Cons a r1)
  from Cons.prems(1) obtain b r2' where r2: "r2 = b # r2'" by (cases r2) auto
  obtain k e where a: "a = (k, e)" by (cases a)
  obtain k' e' where b: "b = (k', e')" by (cases b)
  from Cons.prems(1) have same: "k' = k" "task e' = task e" "result e' = result e"
    and rest: "map (\<lambda>(k, e). (k, task e, result e)) r1 = map (\<lambda>(k, e). (k, task e, result e)) r2'"
    by (simp_all add: r2 a b)
  from Cons.prems(2) have eq:
    "statusText (status e) @ nl2 @ (result e @ nl2
       @ (if status e = Completed \<or> status e = Failed then ''*Task ID: '' @ k @ ''*'' @ nl2 else [])
       @ ''---'' @ nl2 @ summarizeEntries r1 []) =
     statusText (status e') @ nl2 @ (result e @ nl2
       @ (if status e' = Completed \<or> status e' = Failed then ''*Task ID: '' @ k @ ''*'' @ nl2 else [])
       @ ''---'' @ nl2 @ summarizeEntries r2' [])"
    unfolding r2 a b summarizeEntries_Cons same by simp
  then have st: "status e = status e'" by (rule statusText_marks)
  with same have e: "e' = e" by simp
  from eq have "summarizeEntries r1 [] = summarizeEntries r2' []"
    unfolding st by simp
  with rest have "r1 = r2'" by (rule Cons.IH)
  with e same show ?case by (simp add: r2 a b)
qed

lemma summarizeRun_inj:
  "map (\<lambda>(k, e). (k, task e, result e)) r1 = map (\<lambda>(k, e). (k, task e, result e)) r2 \<Longrightarrow>
   summarizeRun r1 = summarizeRun r2 \<Longrightarrow> r1 = r2"
proof -
  assume m: "map (\<lambda>(k, e). (k, task e, result e)) r1 = map (\<lambda>(k, e). (k, task e, result e)) r2"
    and s: "summarizeRun r1 = summarizeRun r2"
  from m have "length r1 = length r2" by (rule map_eq_imp_length_eq)
  then have emp: "(r1 = []) = (r2 = [])" by auto
  show "r1 = r2"
  proof (cases "r1 = []")
    case True
    with emp show ?thesis by simp
  next
    case False
    with emp s have "summarizeEntries r1 [] = summarizeEntries r2 []"
      by (simp add: summarizeRun_unfold)
    with m show ?thesis by (rule summarizeEntries_inj)
  qed
qed

lemma summarizeEntries_shows:
  "(k, e) \<in> set r \<Longrightarrow>
   \<exists>pre post. summarizeEntries r [] =
      pre @ ''## '' @ task e @ '' '' @ statusText (status e) @ nl2 @ result e @ nl2
        @ (if status e = Completed \<or> status e = Failed
           then ''*Task ID: '' @ k @ ''*'' @ nl2 else [])
        @ ''---'' @ nl2 @ post"
proof (induction r)
  case Nil
  then show ?case by simp
next
  case (Cons a r)
  obtain k' e' where a: "a = (k', e')" by (cases a)
  show ?case
  proof (cases "(k, e) = a")
    case True
    then have "k' = k" "e' = e" by (simp_all add: a)
    then show ?thesis
      unfolding a summarizeEntries_Cons
      by (intro exI [of _ "[]"] exI [of _ "summarizeEntries r []"]) simp
  next
    case False
    with Cons.prems have "(k, e) \<in> set r" by simp
    from Cons.IH [OF this] obtain pre post where
      "summarizeEntries r [] =
         pre @ ''## '' @ task e @ '' '' @ statusText (status e) @ nl2 @ result e @ nl2
        @ (if status e = Completed \<or> status e = Failed
           then ''*Task ID: '' @ k @ ''*'' @ nl2 else [])
        @ ''---'' @ nl2 @ post"
      by blast
    then show ?thesis
      unfolding a summarizeEntries_Cons
      by (intro exI [of _ "''## '' @ task e' @ '' '' @ statusText (status e') @ nl2 @ result e' @ nl2
     @ (if status e' = Completed \<or> status e' = Failed then ''*Task ID: '' @ k' @ ''*'' @ nl2 else [])
     @ ''---'' @ nl2 @ pre"] exI [of _ post]) simp
  qed
qed

lemma summarizeRun_shows:
  "(k, e) \<in> set r \<Longrightarrow>
   \<exists>pre post. summarizeRun r =
      pre @ ''## '' @ task e @ '' '' @ statusText (status e) @ nl2 @ result e @ nl2
        @ (if status e = Completed \<or> status e = Failed
           then ''*Task ID: '' @ k @ ''*'' @ nl2 else [])
        @ ''---'' @ nl2 @ post"
proof -
  assume ke: "(k, e) \<in> set r"
  then have "r \<noteq> []" by auto
  from summarizeEntries_shows [OF ke] obtain pre post where
    "summarizeEntries r [] =
       pre @ ''## '' @ task e @ '' '' @ statusText (status e) @ nl2 @ result e @ nl2
        @ (if status e = Completed \<or> status e = Failed
           then ''*Task ID: '' @ k @ ''*'' @ nl2 else [])
        @ ''---'' @ nl2 @ post"
    by blast
  with \<open>r \<noteq> []\<close> show ?thesis
    unfolding summarizeRun_unfold
    by (intro exI [of _ "''# RooCode Tasks'' @ nl2 @ pre"] exI [of _ post]) simp
qed

lemma onTaskStarted_run:
  "fst (onTaskStarted sc i (r, out, ts)) =
     modify i (\<lambda>e. e\<lparr>status := Running, result := ''Task started...''\<rparr>) r"
  by (simp add: onTaskStarted_def Let_def modify_absent)

lemma handler_streams:
  "has_entry r i \<Longrightarrow>
   e \<in> {TaskStarted i, Message i message, TaskCompleted i, TaskAborted i,
         TaskToolFailed i tool err} \<Longrightarrow>
   fst (snd (handle True e (r, out, ts))) = out @ [summarizeRun (fst (handle True e (r, out, ts)))]"
  by (auto simp: onTaskStarted_def onMessage_def onTaskCompleted_def onTaskAborted_def
        onTaskToolFailed_def finish_def stream_def Let_def)

subsection \<open>The wait queue along the events\<close>















subsection \<open>When a TaskRun is registered\<close>

text \<open>
  Claim C7, as the code has it. Submitting the queries registers nothing: the run object
  is still empty when \<open>executeRooTasks\<close> starts to wait. The entry of a task is written
  by \<open>onTaskCreated\<close>, under the id the runtime assigned, with the query, status
  created and the text "Task created, waiting to start..."; the handler also stores the
  id in the closure. The status of a TaskRun is one of created, running, completed,
  failed, cancelled, and nothing else.
\<close>

theorem registered_on_task_created:
  "(executeRooTasks m taskQueries options first = Inr xs \<longrightarrow> run xs = []) \<and>
   map_of (fst (onTaskCreated sc i (r, out, ts))) i =
     Some \<lparr>task = taskQuery ts, status = Created,
            result = ''Task created, waiting to start...''\<rparr> \<and>
   taskId (snd (snd (onTaskCreated sc i (r, out, ts)))) = i \<and>
   (UNIV :: status set) = {Created, Running, Completed, Failed, Cancelled}"
proof (intro conjI impI)
  assume "executeRooTasks m taskQueries options first = Inr xs"
  then show "run xs = []"
    by (auto simp: executeRooTasks_def Let_def run_submit split: if_splits option.splits)
next
  show "map_of (fst (onTaskCreated sc i (r, out, ts))) i =
     Some \<lparr>task = taskQuery ts, status = Created,
            result = ''Task created, waiting to start...''\<rparr>"
    by (simp add: onTaskCreated_def Let_def map_of_assign)
  show "taskId (snd (snd (onTaskCreated sc i (r, out, ts)))) = i"
    by (simp add: onTaskCreated_def Let_def)
  show "(UNIV :: status set) = {Created, Running, Completed, Failed, Cancelled}"
    by (rule status_UNIV)
qed

text \<open>One query submitted with the default options, and the run object at that point.\<close>

theorem registered_on_task_created_witness:
  "executeRooTasks \<lparr>isInitialized = True, adapterActive = True\<rparr> [''q'']
     \<lparr>maxConcurrency = None, streamContent = False, timeout = None\<rparr> None =
   Inr \<lparr>run = [], streamed = [], hasStream = False, timeoutCfg = 300000,
        semaphore = \<lparr>permits = 2, waitQueue = []\<rparr>,
        slots = [Started (executeTask ''q'' 300000)]\<rparr> \<and>
   run \<lparr>run = [], streamed = [], hasStream = False, timeoutCfg = 300000,
        semaphore = \<lparr>permits = 2, waitQueue = []\<rparr>,
        slots = [Started (executeTask ''q'' 300000)]\<rparr> = []"
  using registered_on_task_created
    [of "\<lparr>isInitialized = True, adapterActive = True\<rparr>" "[''q'']"
        "\<lparr>maxConcurrency = None, streamContent = False, timeout = None\<rparr>" None
        "\<lparr>run = [], streamed = [], hasStream = False, timeoutCfg = 300000,
          semaphore = \<lparr>permits = 2, waitQueue = []\<rparr>,
          slots = [Started (executeTask ''q'' 300000)]\<rparr>"]
  by (simp add: executeRooTasks_def new_Semaphore_def acquire_def)

text \<open>
  After the submission of one query the registry holds no entry at all, so none with a
  status pending.
\<close>

theorem no_pending_entry_counterexample:
  "executeRooTasks \<lparr>isInitialized = True, adapterActive = True\<rparr> [''q'']
     \<lparr>maxConcurrency = None, streamContent = False, timeout = None\<rparr> None =
   Inr \<lparr>run = [], streamed = [], hasStream = False, timeoutCfg = 300000,
        semaphore = \<lparr>permits = 2, waitQueue = []\<rparr>,
        slots = [Started \<lparr>taskQuery = ''q'', taskId = [], timeoutMs = 300000,
                          timerArmed = True, settled = Pending, suspended = 0\<rparr>]\<rparr>"
  by (simp add: executeRooTasks_def new_Semaphore_def acquire_def executeTask_def)

subsection \<open>A failed start\<close>




subsection \<open>The streamed summary\<close>

text \<open>
  Claim C8. With a \<open>streamContent\<close> callback: "task created" always, and "task
  started", "message", "task completed", "task aborted" and "tool failed" whenever the
  entry of their task exists, write the entry (status created, running, unchanged with
  the message as result, completed, cancelled, failed) and call the callback with
  \<open>summarizeRun\<close> of the run object as it is after the write; every event that changes
  the run object does so. Hence, from the first call in \<open>executeRooTasks\<close> on and
  after every sequence of events for any of the tasks, the text streamed last is the
  summary of the current run object, and it contains, for every entry, the block with its
  query, the mark of its current status, its result and, for completed and failed, its
  id. The summary tells statuses apart: two run objects with the same ids, queries and
  results in the same order and the same summary are equal. The summary of the empty
  run object is the "No tasks started yet" text. \<open>summarizeRun\<close> is a function of the
  run object: equal run objects give the same markdown.
\<close>

theorem summary_follows_registry:
  "(fst (snd (handle True (TaskCreated i) (r, out, ts))) =
      out @ [summarizeRun (fst (handle True (TaskCreated i) (r, out, ts)))] \<and>
    status_of (fst (handle True (TaskCreated i) (r, out, ts))) i = Some Created) \<and>
   (has_entry r i \<longrightarrow>
      (\<forall>e \<in> {TaskStarted i, Message i message, TaskCompleted i, TaskAborted i,
              TaskToolFailed i tool err}.
         fst (snd (handle True e (r, out, ts))) =
           out @ [summarizeRun (fst (handle True e (r, out, ts)))]) \<and>
      status_of (fst (handle True (TaskStarted i) (r, out, ts))) i = Some Running \<and>
      status_of (fst (handle True (Message i message) (r, out, ts))) i = status_of r i \<and>
      map_option result (map_of (fst (handle True (Message i message) (r, out, ts))) i) =
        Some message \<and>
      status_of (fst (handle True (TaskCompleted i) (r, out, ts))) i = Some Completed \<and>
      status_of (fst (handle True (TaskAborted i) (r, out, ts))) i = Some Cancelled \<and>
      status_of (fst (handle True (TaskToolFailed i tool err) (r, out, ts))) i = Some Failed) \<and>
   (fst (handle True e (r, out, ts)) \<noteq> r \<longrightarrow>
      fst (snd (handle True e (r, out, ts))) =
        out @ [summarizeRun (fst (handle True e (r, out, ts)))]) \<and>
   (streamContent options \<longrightarrow> executeRooTasks m taskQueries options first = Inr xs \<longrightarrow>
      streamed (deliver_all es xs) \<noteq> [] \<and>
      last (streamed (deliver_all es xs)) = summarizeRun (run (deliver_all es xs)) \<and>
      ((k, en) \<in> set (run (deliver_all es xs)) \<longrightarrow>
         (\<exists>pre post. last (streamed (deliver_all es xs)) =
            pre @ ''## '' @ task en @ '' '' @ statusText (status en) @ nl2
            @ result en @ nl2
            @ (if status en = Completed \<or> status en = Failed
               then ''*Task ID: '' @ k @ ''*'' @ nl2 else [])
            @ ''---'' @ nl2 @ post))) \<and>
   (map (\<lambda>(k, e). (k, task e, result e)) r1 = map (\<lambda>(k, e). (k, task e, result e)) r2 \<longrightarrow>
      summarizeRun r1 = summarizeRun r2 \<longrightarrow> r1 = r2) \<and>
   summarizeRun [] = ''# RooCode Tasks'' @ nl2 @ ''*No tasks started yet...*'' @ nl2 \<and>
   (r1 = r2 \<longrightarrow> summarizeRun r1 = summarizeRun r2)"
proof (intro conjI impI ballI)
  show "fst (snd (handle True (TaskCreated i) (r, out, ts))) =
      out @ [summarizeRun (fst (handle True (TaskCreated i) (r, out, ts)))]"
    by (simp add: onTaskCreated_def Let_def stream_def)
  show "status_of (fst (handle True (TaskCreated i) (r, out, ts))) i = Some Created"
    by (simp add: onTaskCreated_def Let_def status_of_def map_of_assign)
next
  fix e' assume "has_entry r i"
    and "e' \<in> {TaskStarted i, Message i message, TaskCompleted i, TaskAborted i,
              TaskToolFailed i tool err}"
  then show "fst (snd (handle True e' (r, out, ts))) =
           out @ [summarizeRun (fst (handle True e' (r, out, ts)))]"
    by (rule handler_streams)
next
  assume "has_entry r i"
  then obtain en' where en': "map_of r i = Some en'"
    by (auto simp: has_entry_def)
  show "status_of (fst (handle True (TaskStarted i) (r, out, ts))) i = Some Running"
    by (simp add: onTaskStarted_run status_of_def map_of_modify en')
  show "status_of (fst (handle True (Message i message) (r, out, ts))) i = status_of r i"
    by (simp add: onMessage_status)
  show "map_option result (map_of (fst (handle True (Message i message) (r, out, ts))) i) =
        Some message"
    by (simp add: onMessage_run map_of_modify en')
  show "status_of (fst (handle True (TaskCompleted i) (r, out, ts))) i = Some Completed"
    by (simp add: onTaskCompleted_def status_of_def finish_map_of en' Let_def)
  show "status_of (fst (handle True (TaskAborted i) (r, out, ts))) i = Some Cancelled"
    by (simp add: onTaskAborted_def status_of_def finish_map_of en')
  show "status_of (fst (handle True (TaskToolFailed i tool err) (r, out, ts))) i = Some Failed"
    by (simp add: onTaskToolFailed_def status_of_def finish_map_of en')
next
  obtain r' out' ts' where h: "handle True e (r, out, ts) = (r', out', ts')"
    by (cases "handle True e (r, out, ts)") auto
  assume "fst (handle True e (r, out, ts)) \<noteq> r"
  with h handle_stream [OF h]
  show "fst (snd (handle True e (r, out, ts))) =
        out @ [summarizeRun (fst (handle True e (r, out, ts)))]"
    by auto
next
  assume sc: "streamContent options"
    and ex: "executeRooTasks m taskQueries options first = Inr xs"
  from sc ex have "hasStream xs \<and> streamed xs = [summarizeRun []] \<and> run xs = []"
    by (auto simp: executeRooTasks_def Let_def run_submit streamed_submit hasStream_submit
             split: if_splits option.splits)
  then have "hasStream xs" "streamed xs \<noteq> []" "last (streamed xs) = summarizeRun (run xs)"
    by simp_all
  then show ne: "streamed (deliver_all es xs) \<noteq> []"
    and la: "last (streamed (deliver_all es xs)) = summarizeRun (run (deliver_all es xs))"
    using deliver_all_synced [of xs es] by simp_all
  assume "(k, en) \<in> set (run (deliver_all es xs))"
  from summarizeRun_shows [OF this]
  show "\<exists>pre post. last (streamed (deliver_all es xs)) =
            pre @ ''## '' @ task en @ '' '' @ statusText (status en) @ nl2
            @ result en @ nl2
            @ (if status en = Completed \<or> status en = Failed
               then ''*Task ID: '' @ k @ ''*'' @ nl2 else [])
            @ ''---'' @ nl2 @ post"
    unfolding la .
next
  assume "map (\<lambda>(k, e). (k, task e, result e)) r1 = map (\<lambda>(k, e). (k, task e, result e)) r2"
    and "summarizeRun r1 = summarizeRun r2"
  then show "r1 = r2" by (rule summarizeRun_inj)
next
  show "summarizeRun [] = ''# RooCode Tasks'' @ nl2 @ ''*No tasks started yet...*'' @ nl2"
    by (simp add: summarizeRun_def)
next
  assume "r1 = r2"
  then show "summarizeRun r1 = summarizeRun r2" by simp
qed

text \<open>
  A created task is started; and a task is created and then fails on a tool, after which
  the last streamed text shows the failure. A failed and a completed entry that are
  otherwise equal have different summaries.
\<close>

theorem summary_follows_registry_witness:
  "has_entry [(''t1'', \<lparr>task = ''q'', status = Created,
                        result = ''Task created, waiting to start...''\<rparr>)] ''t1'' \<and>
   TaskStarted ''t1'' \<in> {TaskStarted ''t1'', Message ''t1'' ''{}'', TaskCompleted ''t1'',
                          TaskAborted ''t1'', TaskToolFailed ''t1'' ''read_file'' ''denied''} \<and>
   handle True (TaskStarted ''t1'')
     ([(''t1'', \<lparr>task = ''q'', status = Created,
                 result = ''Task created, waiting to start...''\<rparr>)], [],
      (executeTask ''q'' 300000)\<lparr>taskId := ''t1''\<rparr>) =
     ([(''t1'', \<lparr>task = ''q'', status = Running, result = ''Task started...''\<rparr>)],
      [summarizeRun [(''t1'', \<lparr>task = ''q'', status = Running, result = ''Task started...''\<rparr>)]],
      (executeTask ''q'' 300000)\<lparr>taskId := ''t1''\<rparr>) \<and>
   streamContent \<lparr>maxConcurrency = None, streamContent = True, timeout = None\<rparr> \<and>
   executeRooTasks \<lparr>isInitialized = True, adapterActive = True\<rparr> [''q'']
     \<lparr>maxConcurrency = None, streamContent = True, timeout = None\<rparr> None =
   Inr \<lparr>run = [], streamed = [summarizeRun []], hasStream = True, timeoutCfg = 300000,
        semaphore = \<lparr>permits = 2, waitQueue = []\<rparr>,
        slots = [Started (executeTask ''q'' 300000)]\<rparr> \<and>
   run (deliver_all [(0, TaskCreated ''t1''), (0, TaskToolFailed ''t1'' ''read_file'' ''denied'')]
     \<lparr>run = [], streamed = [summarizeRun []], hasStream = True, timeoutCfg = 300000,
        semaphore = \<lparr>permits = 2, waitQueue = []\<rparr>,
        slots = [Started (executeTask ''q'' 300000)]\<rparr>) =
     [(''t1'', \<lparr>task = ''q'', status = Failed, result = ''Tool read_file failed: denied''\<rparr>)] \<and>
   last (streamed (deliver_all [(0, TaskCreated ''t1''), (0, TaskToolFailed ''t1'' ''read_file'' ''denied'')]
     \<lparr>run = [], streamed = [summarizeRun []], hasStream = True, timeoutCfg = 300000,
        semaphore = \<lparr>permits = 2, waitQueue = []\<rparr>,
        slots = [Started (executeTask ''q'' 300000)]\<rparr>)) =
     ''# RooCode Tasks'' @ nl2 @ ''## q (Failed)'' @ nl2 @ ''Tool read_file failed: denied'' @ nl2
       @ ''*Task ID: t1*'' @ nl2 @ ''---'' @ nl2 \<and>
   summarizeRun [(''t1'', \<lparr>task = ''q'', status = Failed, result = ''x''\<rparr>)] \<noteq>
     summarizeRun [(''t1'', \<lparr>task = ''q'', status = Completed, result = ''x''\<rparr>)]"
  using summary_follows_registry
    [where i = "''t1''"
       and r = "[(''t1'', \<lparr>task = ''q'', status = Created,
                            result = ''Task created, waiting to start...''\<rparr>)]"
       and out = "[]" and ts = "(executeTask ''q'' 300000)\<lparr>taskId := ''t1''\<rparr>"
       and message = "''{}''" and tool = "''read_file''" and err = "''denied''"
       and e = "TaskStarted ''t1''"
       and options = "\<lparr>maxConcurrency = None, streamContent = True, timeout = None\<rparr>"
       and m = "\<lparr>isInitialized = True, adapterActive = True\<rparr>" and taskQueries = "[''q'']"
       and first = None
       and xs = "\<lparr>run = [], streamed = [summarizeRun []], hasStream = True, timeoutCfg = 300000,
          semaphore = \<lparr>permits = 2, waitQueue = []\<rparr>,
          slots = [Started (executeTask ''q'' 300000)]\<rparr>"
       and es = "[(0, TaskCreated ''t1''), (0, TaskToolFailed ''t1'' ''read_file'' ''denied'')]"
       and k = "''t1''"
       and en = "\<lparr>task = ''q'', status = Failed, result = ''Tool read_file failed: denied''\<rparr>"
       and ?r1.0 = "[(''t1'', \<lparr>task = ''q'', status = Failed, result = ''x''\<rparr>)]"
       and ?r2.0 = "[(''t1'', \<lparr>task = ''q'', status = Completed, result = ''x''\<rparr>)]"]
  by (simp add: executeRooTasks_def new_Semaphore_def acquire_def onTaskCreated_def
        onTaskStarted_def onTaskToolFailed_def finish_def deliver_def Let_def stream_def
        has_entry_def executeTask_def summarizeRun_def statusText_def nl2_def)

subsection \<open>Waiting for all tasks\<close>



subsection \<open>The timeout\<close>

text \<open>
  Claim C4, as the code has it. When the timer of an entered task fires while its
  promise is pending, the promise is rejected with "Task timeout" and the \<open>finally\<close>
  block releases the permit. If no runtime event has set \<open>taskId\<close>, the run object and
  the stream stay as they are: the task has no entry and none is written. If \<open>taskId\<close>
  is set and its entry exists, the entry becomes failed with the result "Task timed out
  after 5 minutes".
\<close>

theorem timeout_without_events:
  "i < length (slots xs) \<Longrightarrow> slots xs ! i = Started ts \<Longrightarrow> timerArmed ts \<Longrightarrow>
   settled ts = Pending \<Longrightarrow>
   (taskId ts = [] \<longrightarrow>
      run (deliver i TimeoutFired xs) = run xs \<and>
      streamed (deliver i TimeoutFired xs) = streamed xs) \<and>
   (taskId ts \<noteq> [] \<longrightarrow> map_of (run xs) (taskId ts) = Some en \<longrightarrow>
      map_of (run (deliver i TimeoutFired xs)) (taskId ts) =
        Some (en\<lparr>status := Failed, result := ''Task timed out after 5 minutes''\<rparr>)) \<and>
   slots (deliver i TimeoutFired xs) ! i =
     Started (ts\<lparr>timerArmed := False, settled := Rejected ''Task timeout''\<rparr>) \<and>
   semaphore (deliver i TimeoutFired xs) = snd (release (semaphore xs))"
proof -
  assume i: "i < length (slots xs)" and ts: "slots xs ! i = Started ts"
    and armed: "timerArmed ts" and pend: "settled ts = Pending"
  define ts' where "ts' = ts\<lparr>timerArmed := False, settled := Rejected ''Task timeout''\<rparr>"
  have "snd (snd (handle (hasStream xs) TimeoutFired (run xs, streamed xs, ts))) = ts'"
    using armed pend by (simp add: onTimeout_def Let_def reject_def ts'_def)
  then obtain r' out' where h: "handle (hasStream xs) TimeoutFired (run xs, streamed xs, ts) = (r', out', ts')"
    by (cases "handle (hasStream xs) TimeoutFired (run xs, streamed xs, ts)") auto
  have d: "deliver i TimeoutFired xs =
        finally_release (xs\<lparr>run := r', streamed := out', slots := (slots xs)[i := Started ts']\<rparr>)"
    using i ts h pend by (simp add: deliver_def Let_def ts'_def)
  have r: "run (deliver i TimeoutFired xs) = r'" and o: "streamed (deliver i TimeoutFired xs) = out'"
    by (simp_all add: d finally_release_fields)
  have A: "taskId ts = [] \<longrightarrow>
      run (deliver i TimeoutFired xs) = run xs \<and>
      streamed (deliver i TimeoutFired xs) = streamed xs"
    using h armed unfolding r o by (auto simp: onTimeout_def Let_def)
  have "r' = fst (handle (hasStream xs) TimeoutFired (run xs, streamed xs, ts))"
    by (simp only: h fst_conv)
  then have B: "taskId ts \<noteq> [] \<longrightarrow> map_of (run xs) (taskId ts) = Some en \<longrightarrow>
      map_of (run (deliver i TimeoutFired xs)) (taskId ts) =
        Some (en\<lparr>status := Failed, result := ''Task timed out after 5 minutes''\<rparr>)"
    using armed unfolding r by (simp add: onTimeout_def Let_def has_entry_def map_of_modify)
  have "slots (xs\<lparr>run := r', streamed := out', slots := (slots xs)[i := Started ts']\<rparr>) ! i
          = Started ts'"
    using i by simp
  then have C: "slots (deliver i TimeoutFired xs) ! i = Started ts'"
    unfolding d by (rule slots_finally_release_kept)
  have D: "semaphore (deliver i TimeoutFired xs) = snd (release (semaphore xs))"
    by (simp add: d finally_release_fields)
  from A B C D show ?thesis unfolding ts'_def by blast
qed

text \<open>
  A task that received no event times out while another query waits for its permit; and
  a task that was created and started times out.
\<close>

theorem timeout_without_events_witness:
  "(0::nat) < length [Started (executeTask ''q'' 300000), Queued ''p''] \<and>
   timerArmed (executeTask ''q'' 300000) \<and> settled (executeTask ''q'' 300000) = Pending \<and>
   taskId (executeTask ''q'' 300000) = [] \<and>
   run (deliver 0 TimeoutFired
     \<lparr>run = [], streamed = [], hasStream = False, timeoutCfg = 300000,
      semaphore = \<lparr>permits = 0, waitQueue = [1]\<rparr>,
      slots = [Started (executeTask ''q'' 300000), Queued ''p'']\<rparr>) = [] \<and>
   slots (deliver 0 TimeoutFired
     \<lparr>run = [], streamed = [], hasStream = False, timeoutCfg = 300000,
      semaphore = \<lparr>permits = 0, waitQueue = [1]\<rparr>,
      slots = [Started (executeTask ''q'' 300000), Queued ''p'']\<rparr>) ! 0 =
     Started \<lparr>taskQuery = ''q'', taskId = [], timeoutMs = 300000, timerArmed = False,
              settled = Rejected ''Task timeout'', suspended = 0\<rparr> \<and>
   semaphore (deliver 0 TimeoutFired
     \<lparr>run = [], streamed = [], hasStream = False, timeoutCfg = 300000,
      semaphore = \<lparr>permits = 0, waitQueue = [1]\<rparr>,
      slots = [Started (executeTask ''q'' 300000), Queued ''p'']\<rparr>) =
     \<lparr>permits = 0, waitQueue = []\<rparr> \<and>
   taskId ((executeTask ''q'' 300000)\<lparr>taskId := ''t1''\<rparr>) \<noteq> [] \<and>
   map_of [(''t1'', \<lparr>task = ''q'', status = Running, result = ''Task started...''\<rparr>)] ''t1'' =
     Some \<lparr>task = ''q'', status = Running, result = ''Task started...''\<rparr> \<and>
   map_of (run (deliver 0 TimeoutFired
     \<lparr>run = [(''t1'', \<lparr>task = ''q'', status = Running, result = ''Task started...''\<rparr>)],
      streamed = [], hasStream = False, timeoutCfg = 300000,
      semaphore = \<lparr>permits = 2, waitQueue = []\<rparr>,
      slots = [Started ((executeTask ''q'' 300000)\<lparr>taskId := ''t1''\<rparr>)]\<rparr>)) ''t1'' =
     Some \<lparr>task = ''q'', status = Failed, result = ''Task timed out after 5 minutes''\<rparr>"
  using timeout_without_events
    [of 0 "\<lparr>run = [], streamed = [], hasStream = False, timeoutCfg = 300000,
             semaphore = \<lparr>permits = 0, waitQueue = [1]\<rparr>,
             slots = [Started (executeTask ''q'' 300000), Queued ''p'']\<rparr>"
        "executeTask ''q'' 300000"
        "\<lparr>task = ''q'', status = Created, result = []\<rparr>"]
    timeout_without_events
    [of 0 "\<lparr>run = [(''t1'', \<lparr>task = ''q'', status = Running, result = ''Task started...''\<rparr>)],
             streamed = [], hasStream = False, timeoutCfg = 300000,
             semaphore = \<lparr>permits = 2, waitQueue = []\<rparr>,
             slots = [Started ((executeTask ''q'' 300000)\<lparr>taskId := ''t1''\<rparr>)]\<rparr>"
        "(executeTask ''q'' 300000)\<lparr>taskId := ''t1''\<rparr>"
        "\<lparr>task = ''q'', status = Running, result = ''Task started...''\<rparr>"]
  by (simp add: executeTask_def release_def)

text \<open>
  One query is submitted and its timer fires before any runtime event: the promise is
  rejected and the permit is back, but the run object is empty, so no entry is failed.
\<close>

theorem timeout_no_entry_counterexample:
  "map_sum id (deliver 0 TimeoutFired)
     (executeRooTasks \<lparr>isInitialized = True, adapterActive = True\<rparr> [''q'']
        \<lparr>maxConcurrency = None, streamContent = False, timeout = None\<rparr> None) =
   Inr \<lparr>run = [], streamed = [], hasStream = False, timeoutCfg = 300000,
        semaphore = \<lparr>permits = 3, waitQueue = []\<rparr>,
        slots = [Started \<lparr>taskQuery = ''q'', taskId = [], timeoutMs = 300000,
                          timerArmed = False, settled = Rejected ''Task timeout'',
                          suspended = 0\<rparr>]\<rparr>"
  by (simp add: executeRooTasks_def new_Semaphore_def acquire_def executeTask_def deliver_def
        onTimeout_def reject_def finally_release_def release_def Let_def)

subsection \<open>The defaults of the options\<close>

text \<open>
  Claim C9. Without a \<open>maxConcurrency\<close> option the semaphore starts with 3 permits,
  and after every sequence of events at most 3 tasks hold a permit. Without a
  \<open>timeout\<close> option every timer that is ever set has the delay 300000 ms.
\<close>

theorem default_options:
  "executeRooTasks m taskQueries options first = Inr xs \<Longrightarrow>
   (maxConcurrency options = None \<longrightarrow>
      permits (semaphore xs) + int (admitted xs) = 3 \<and>
      admitted (deliver_all es xs) \<le> 3) \<and>
   (timeout options = None \<longrightarrow>
      timeoutCfg xs = 300000 \<and>
      list_all (\<lambda>ms. ms = 300000) (slot_timeouts (slots (deliver_all es xs))))"
proof -
  assume ex: "executeRooTasks m taskQueries options first = Inr xs"
  define mc where "mc = (case maxConcurrency options of None \<Rightarrow> 3 | Some n \<Rightarrow> n)"
  define ms where "ms = (case timeout options of None \<Rightarrow> (300000::int) | Some t \<Rightarrow> t)"
  from ex obtain sc out where xs: "xs = submit 0 taskQueries
      \<lparr>run = [], streamed = out, hasStream = sc, timeoutCfg = ms,
       semaphore = new_Semaphore mc, slots = []\<rparr>"
    by (auto simp: executeRooTasks_def Let_def mc_def ms_def split: if_splits option.splits)
  let ?x0 = "\<lparr>run = [], streamed = out, hasStream = sc, timeoutCfg = ms,
              semaphore = new_Semaphore mc, slots = []\<rparr>"
  have A: "maxConcurrency options = None \<longrightarrow>
      permits (semaphore xs) + int (admitted xs) = 3 \<and> admitted (deliver_all es xs) \<le> 3"
  proof
    assume "maxConcurrency options = None"
    then have mc: "mc = 3" by (simp add: mc_def)
    have "0 \<le> permits (semaphore ?x0)" by (simp add: mc new_Semaphore_def)
    from submit_permits [OF this, of 0 taskQueries]
    have s: "0 \<le> permits (semaphore xs)" "int (admitted xs) + permits (semaphore xs) = 3"
      by (simp_all add: xs mc new_Semaphore_def admitted_def)
    from deliver_all_permits [OF s(1), of es] s(2)
    show "permits (semaphore xs) + int (admitted xs) = 3 \<and> admitted (deliver_all es xs) \<le> 3"
      by linarith
  qed
  have B: "timeout options = None \<longrightarrow>
      timeoutCfg xs = 300000 \<and>
      list_all (\<lambda>ms. ms = 300000) (slot_timeouts (slots (deliver_all es xs)))"
  proof
    assume "timeout options = None"
    then have ms: "ms = 300000" by (simp add: ms_def)
    have "\<forall>ts. Started ts \<in> set (slots ?x0) \<longrightarrow> timeoutMs ts = timeoutCfg ?x0" by simp
    from submit_timeouts [OF this, of 0 taskQueries]
    have s: "timeoutCfg xs = 300000"
      "\<forall>ts. Started ts \<in> set (slots xs) \<longrightarrow> timeoutMs ts = timeoutCfg xs"
      by (simp_all add: xs ms)
    from deliver_all_timeouts [OF s(2), of es] s(1)
    have "\<forall>ts. Started ts \<in> set (slots (deliver_all es xs)) \<longrightarrow> timeoutMs ts = 300000"
      by simp
    then have "list_all (\<lambda>ms. ms = 300000) (slot_timeouts (slots (deliver_all es xs)))"
      by (auto simp: list_all_iff timeouts_mem)
    with s(1) show "timeoutCfg xs = 300000 \<and>
      list_all (\<lambda>ms. ms = 300000) (slot_timeouts (slots (deliver_all es xs)))" by simp
  qed
  from A B show ?thesis by blast
qed

text \<open>Four queries with the default options: three are entered, the fourth waits.\<close>

theorem default_options_witness:
  "executeRooTasks \<lparr>isInitialized = True, adapterActive = True\<rparr> [''a'', ''b'', ''c'', ''d'']
     \<lparr>maxConcurrency = None, streamContent = False, timeout = None\<rparr> None =
   Inr \<lparr>run = [], streamed = [], hasStream = False, timeoutCfg = 300000,
        semaphore = \<lparr>permits = 0, waitQueue = [3]\<rparr>,
        slots = [Started (executeTask ''a'' 300000), Started (executeTask ''b'' 300000),
                 Started (executeTask ''c'' 300000), Queued ''d'']\<rparr> \<and>
   admitted (deliver_all [(0, TimeoutFired)]
     \<lparr>run = [], streamed = [], hasStream = False, timeoutCfg = 300000,
        semaphore = \<lparr>permits = 0, waitQueue = [3]\<rparr>,
        slots = [Started (executeTask ''a'' 300000), Started (executeTask ''b'' 300000),
                 Started (executeTask ''c'' 300000), Queued ''d'']\<rparr>) \<le> 3 \<and>
   list_all (\<lambda>ms. ms = 300000) (slot_timeouts (slots (deliver_all [(0, TimeoutFired)]
     \<lparr>run = [], streamed = [], hasStream = False, timeoutCfg = 300000,
        semaphore = \<lparr>permits = 0, waitQueue = [3]\<rparr>,
        slots = [Started (executeTask ''a'' 300000), Started (executeTask ''b'' 300000),
                 Started (executeTask ''c'' 300000), Queued ''d'']\<rparr>)))"
  using default_options
    [of "\<lparr>isInitialized = True, adapterActive = True\<rparr>" "[''a'', ''b'', ''c'', ''d'']"
        "\<lparr>maxConcurrency = None, streamContent = False, timeout = None\<rparr>" None
        "\<lparr>run = [], streamed = [], hasStream = False, timeoutCfg = 300000,
          semaphore = \<lparr>permits = 0, waitQueue = [3]\<rparr>,
          slots = [Started (executeTask ''a'' 300000), Started (executeTask ''b'' 300000),
                   Started (executeTask ''c'' 300000), Queued ''d'']\<rparr>"
        "[(0, TimeoutFired)]"]
  by (simp add: executeRooTasks_def new_Semaphore_def acquire_def)

section \<open>Properties of initialize and the guard of executeRooTasks\<close>

text \<open>
  Claim C10. On a manager that is not initialized, \<open>executeRooTasks\<close> throws
  "McpTaskManager is not initialized" and does nothing else: no run object, no
  semaphore, no task. On such a manager \<open>initialize\<close> throws "RooCode adapter is not
  available" when the adapter is not active, and sets the flag when it is. On an
  initialized manager \<open>initialize\<close> returns with the manager unchanged.
\<close>

theorem initialization_guard:
  "(\<not> isInitialized m \<longrightarrow>
      executeRooTasks m taskQueries options first =
        Inl (Error ''McpTaskManager is not initialized'')) \<and>
   (\<not> isInitialized m \<longrightarrow> \<not> adapterActive m \<longrightarrow>
      initialize m = Inl (Error ''RooCode adapter is not available'')) \<and>
   (\<not> isInitialized m \<longrightarrow> adapterActive m \<longrightarrow>
      initialize m = Inr (m\<lparr>isInitialized := True\<rparr>)) \<and>
   (isInitialized m \<longrightarrow> initialize m = Inr m)"
  by (simp add: executeRooTasks_def initialize_def)

text \<open>
  A new manager whose adapter is not active, one whose adapter is active, and an
  initialized one.
\<close>

theorem initialization_guard_witness:
  "\<not> isInitialized \<lparr>isInitialized = False, adapterActive = False\<rparr> \<and>
   \<not> adapterActive \<lparr>isInitialized = False, adapterActive = False\<rparr> \<and>
   executeRooTasks \<lparr>isInitialized = False, adapterActive = False\<rparr> [''q'']
       \<lparr>maxConcurrency = None, streamContent = True, timeout = None\<rparr> None =
     Inl (Error ''McpTaskManager is not initialized'') \<and>
   initialize \<lparr>isInitialized = False, adapterActive = False\<rparr> =
     Inl (Error ''RooCode adapter is not available'') \<and>
   adapterActive \<lparr>isInitialized = False, adapterActive = True\<rparr> \<and>
   initialize \<lparr>isInitialized = False, adapterActive = True\<rparr> =
     Inr \<lparr>isInitialized = True, adapterActive = True\<rparr> \<and>
   isInitialized \<lparr>isInitialized = True, adapterActive = True\<rparr> \<and>
   initialize \<lparr>isInitialized = True, adapterActive = True\<rparr> =
     Inr \<lparr>isInitialized = True, adapterActive = True\<rparr>"
  using initialization_guard
    [of "\<lparr>isInitialized = False, adapterActive = False\<rparr>" "[''q'']"
        "\<lparr>maxConcurrency = None, streamContent = True, timeout = None\<rparr>" None]
    initialization_guard
    [of "\<lparr>isInitialized = False, adapterActive = True\<rparr>" "[''q'']"
        "\<lparr>maxConcurrency = None, streamContent = True, timeout = None\<rparr>" None]
    initialization_guard
    [of "\<lparr>isInitialized = True, adapterActive = True\<rparr>" "[''q'']"
        "\<lparr>maxConcurrency = None, streamContent = True, timeout = None\<rparr>" None]
  by simp

end
